theory Spec2Isabelle
  imports Complex_Main "HOL-Library.Char_ord" "HOL-Library.List_Lexorder" "HOL-Library.Multiset"
begin

section \<open>Pricing calculations (public/src/utils/pricing.js)\<close>

text \<open>
  JavaScript numbers are modelled as exact reals: the IEEE-754 rounding of the
  individual operations is not part of the model. The one non-number that the pricing
  code can produce from a well-typed catalog is kept: \<open>NaN\<close>, which arises when a
  property read yields \<open>undefined\<close> and arithmetic is done with it. An \<open>undefined\<close>
  that is only ever added to a number is represented by \<open>NaN\<close> as well.
\<close>

datatype jsnum = Num real | NaN

instantiation jsnum :: comm_monoid_add
begin

definition zero_jsnum :: jsnum where
  "zero_jsnum = Num 0"

fun plus_jsnum :: "jsnum \<Rightarrow> jsnum \<Rightarrow> jsnum" where
  "plus_jsnum (Num a) (Num b) = Num (a + b)"
| "plus_jsnum NaN y = NaN"
| "plus_jsnum x NaN = NaN"

instance
proof (standard, goal_cases)
  case (1 x y z)
  show ?case
    by (cases x) (cases y, (cases z, simp, simp), simp, simp)
next
  case (2 x y)
  show ?case
    by (cases x) (cases y, simp, simp, cases y, simp, simp)
next
  case (3 x)
  show ?case
    unfolding zero_jsnum_def by (cases x) (simp, simp)
qed

end

text \<open>\<open>Math.round\<close>: the nearest integer, a tie going up (towards plus infinity).\<close>

definition Math_round :: "real \<Rightarrow> real" where
  "Math_round x = of_int \<lfloor>x + 1 / 2\<rfloor>"

fun js_round :: "jsnum \<Rightarrow> jsnum" where
  "js_round (Num x) = Num (Math_round x)"
| "js_round NaN = NaN"

fun js_times :: "jsnum \<Rightarrow> real \<Rightarrow> jsnum" where
  "js_times (Num x) k = Num (x * k)"
| "js_times NaN k = NaN"

definition getSizeMultiplier :: "real \<Rightarrow> real \<Rightarrow> real" where
  "getSizeMultiplier sqft scaleFactor =
     (if scaleFactor = 0 then 1
      else
        let effectiveSqft = max sqft 2500;
            baseline = 4000;
            ratio = effectiveSqft / baseline
        in 1 + (ratio - 1) * scaleFactor)"

text \<open>
  The catalog. A tier offering has a \<open>price\<close> and an optional \<open>sizeScale\<close> of its
  own; a category has an \<open>id\<close>, its \<open>sizeScale\<close>, the flags \<open>baseTierNoScale\<close> and
  \<open>isCustomized\<close> (absent reads as false) and the object \<open>tiers\<close>, kept as the list
  of its own properties. The presentation fields are left out. Field names that two
  records share carry a prefix.
\<close>

record tier_data =
  t_price :: real
  t_sizeScale :: "real option"

record category =
  c_id :: string
  c_sizeScale :: real
  baseTierNoScale :: bool
  isCustomized :: bool
  tiers :: "(string \<times> tier_data) list"

record extra =
  e_id :: string
  e_price :: real
  e_sizeScale :: "real option"

record modifier =
  m_name :: string
  m_amount :: real

text \<open>
  \<open>cat.tiers[tier]\<close> is a property read on a plain object, and the tier name comes
  from the saved selection state, so it is any string. A name that is not an own
  property of \<open>tiers\<close> is looked up on \<open>Object.prototype\<close>: for the names below the
  read yields a function (for \<open>__proto__\<close> the prototype object), which is truthy and
  has no \<open>price\<close> and no \<open>sizeScale\<close>.
\<close>

definition object_prototype_keys :: "string list" where
  "object_prototype_keys =
     [''constructor'', ''__defineGetter__'', ''__defineSetter__'', ''hasOwnProperty'',
      ''__lookupGetter__'', ''__lookupSetter__'', ''isPrototypeOf'',
      ''propertyIsEnumerable'', ''toString'', ''valueOf'', ''__proto__'',
      ''toLocaleString'']"

datatype 'a property = Own 'a | Inherited | Missing

definition read_prop :: "(string \<times> 'a) list \<Rightarrow> string \<Rightarrow> 'a property" where
  "read_prop obj k =
     (case map_of obj k of
        Some v \<Rightarrow> Own v
      | None \<Rightarrow> if k \<in> set object_prototype_keys then Inherited else Missing)"

text \<open>
  \<open>getCategoryPrice(cat, tier, homeSize)\<close>. The tier is \<open>None\<close> for \<open>null\<close> or
  \<open>undefined\<close>; the empty string is falsy too. With an inherited \<open>tierData\<close> the base
  price is \<open>undefined\<close>: the function returns it as it is for a customized category and
  \<open>Math.round(undefined * sizeMult / 100) * 100 = NaN\<close> otherwise.
\<close>

definition getCategoryPrice :: "category \<Rightarrow> string option \<Rightarrow> real \<Rightarrow> jsnum" where
  "getCategoryPrice cat tier homeSize =
     (case tier of
        None \<Rightarrow> Num 0
      | Some t \<Rightarrow>
          if t = [] then Num 0
          else
            (case read_prop (tiers cat) t of
               Missing \<Rightarrow> Num 0
             | Inherited \<Rightarrow> NaN
             | Own tierData \<Rightarrow>
                 let base = t_price tierData in
                 if isCustomized cat then Num base
                 else
                   let skipSize = (baseTierNoScale cat \<and> t = ''good'');
                       scaleToUse = (case t_sizeScale tierData of
                                       Some s \<Rightarrow> s
                                     | None \<Rightarrow> c_sizeScale cat);
                       sizeMult = (if skipSize then 1
                                   else getSizeMultiplier homeSize scaleToUse)
                   in Num (Math_round (base * sizeMult / 100) * 100)))"

definition getExtraPrice :: "extra \<Rightarrow> real \<Rightarrow> real" where
  "getExtraPrice e homeSize =
     (case e_sizeScale e of
        Some s \<Rightarrow>
          let mult = getSizeMultiplier homeSize s
          in Math_round (e_price e * mult / 100) * 100
      | None \<Rightarrow> e_price e)"

text \<open>
  The argument of \<open>calculateTotal\<close>. The objects \<open>selections\<close>, \<open>extras\<close> and
  \<open>catMods\<close> are keyed by the ids of the catalog and kept as lists of their own
  properties, in insertion order; a selection is a tier name or \<open>null\<close>. The ids of
  the catalog are configuration data and are taken not to name a member of
  \<open>Object.prototype\<close>, so that a read by id finds an own property or nothing.
\<close>

record params =
  categories :: "category list"
  selections :: "(string \<times> string option) list"
  extras :: "(string \<times> bool) list"
  extrasData :: "extra list"
  modifiers :: "modifier list"
  catMods :: "(string \<times> modifier) list"
  homeSize :: real

record totals =
  subtotal :: jsnum
  extrasTotal :: real
  modifiersTotal :: real
  equipmentSubtotal :: jsnum
  taxEstimate :: jsnum
  grandTotal :: jsnum
  selectedCount :: nat

text \<open>\<open>selections[cat.id]\<close>: \<open>None\<close> when the property is absent or \<open>null\<close>.\<close>

definition selection_of :: "params \<Rightarrow> category \<Rightarrow> string option" where
  "selection_of p cat =
     (case map_of (selections p) (c_id cat) of
        Some tier \<Rightarrow> tier
      | None \<Rightarrow> None)"

text \<open>
  The truth value of an optional string (a tier in \<open>if (tier)\<close>, a note, a client
  name): it is present and not empty.
\<close>

definition truthy_str :: "string option \<Rightarrow> bool" where
  "truthy_str tier = (case tier of Some t \<Rightarrow> t \<noteq> [] | None \<Rightarrow> False)"

text \<open>The body of \<open>categories.forEach\<close>, on the pair of \<open>subtotal\<close> and \<open>selectedCount\<close>.\<close>

definition category_step :: "params \<Rightarrow> category \<Rightarrow> jsnum \<times> nat \<Rightarrow> jsnum \<times> nat" where
  "category_step p cat acc =
     (case acc of (subtotal0, selectedCount0) \<Rightarrow>
        let tier = selection_of p cat in
        if truthy_str tier then
          let subtotal1 = subtotal0 + getCategoryPrice cat tier (homeSize p);
              subtotal2 = (case map_of (catMods p) (c_id cat) of
                             Some md \<Rightarrow>
                               if m_amount md \<noteq> 0 then subtotal1 + Num (m_amount md)
                               else subtotal1
                           | None \<Rightarrow> subtotal1)
          in (subtotal2, selectedCount0 + 1)
        else acc)"

text \<open>The body of \<open>extrasData.forEach\<close>, on \<open>extrasTotal\<close>.\<close>

definition extra_step :: "params \<Rightarrow> extra \<Rightarrow> real \<Rightarrow> real" where
  "extra_step p e extrasTotal0 =
     (if map_of (extras p) (e_id e) = Some True
      then extrasTotal0 + getExtraPrice e (homeSize p)
      else extrasTotal0)"

text \<open>The body of \<open>modifiers.forEach\<close>: \<open>modifiersTotal += m.amount || 0\<close>.\<close>

definition modifier_step :: "modifier \<Rightarrow> real \<Rightarrow> real" where
  "modifier_step m modifiersTotal0 =
     modifiersTotal0 + (if m_amount m \<noteq> 0 then m_amount m else 0)"

definition calculateTotal :: "params \<Rightarrow> totals" where
  "calculateTotal p =
     (case fold (category_step p) (categories p) (Num 0, 0) of
        (subtotal', selectedCount') \<Rightarrow>
          let extrasTotal' = fold (extra_step p) (extrasData p) 0;
              modifiersTotal' = fold modifier_step (modifiers p) 0;
              equipmentSubtotal' = subtotal' + Num extrasTotal' + Num modifiersTotal';
              taxEstimate' = js_round (js_times equipmentSubtotal' (7 / 100));
              grandTotal' = equipmentSubtotal' + taxEstimate'
          in \<lparr> subtotal = subtotal',
               extrasTotal = extrasTotal',
               modifiersTotal = modifiersTotal',
               equipmentSubtotal = equipmentSubtotal',
               taxEstimate = taxEstimate',
               grandTotal = grandTotal',
               selectedCount = selectedCount' \<rparr>)"

text \<open>
  \<open>getDominantTier(selections)\<close>. The object \<open>tierCounts\<close> is the list of its four
  properties in insertion order, which is the order of \<open>Object.keys\<close> and
  \<open>Object.values\<close>. A value of \<open>selections\<close> is counted when it is truthy and an own
  property of \<open>tierCounts\<close>.
\<close>

definition initial_tierCounts :: "(string \<times> nat) list" where
  "initial_tierCounts = [(''good'', 0), (''standard'', 0), (''better'', 0), (''best'', 0)]"

definition labels :: "(string \<times> string) list" where
  "labels = [(''good'', ''Good Tier''), (''standard'', ''Standard Tier''),
             (''better'', ''Better Tier''), (''best'', ''Best Tier'')]"

definition count_step :: "string option \<Rightarrow> (string \<times> nat) list \<Rightarrow> (string \<times> nat) list" where
  "count_step t tierCounts =
     (if truthy_str t \<and> the t \<in> set (map fst tierCounts)
      then map (\<lambda>(k, n). if k = the t then (k, n + 1) else (k, n)) tierCounts
      else tierCounts)"

text \<open>\<open>Math.max\<close> over counts, which are never negative.\<close>

definition Math_max :: "nat list \<Rightarrow> nat" where
  "Math_max ns = fold max ns 0"

definition getDominantTier :: "(string \<times> string option) list \<Rightarrow> string" where
  "getDominantTier sels =
     (let tierCounts = fold count_step (map snd sels) initial_tierCounts;
          maxCount = Math_max (map snd tierCounts)
      in if maxCount = 0 then []
         else
           (case find (\<lambda>(k, n). n = maxCount) tierCounts of
              Some (dominant, n) \<Rightarrow>
                (case map_of labels dominant of Some l \<Rightarrow> l | None \<Rightarrow> [])
            | None \<Rightarrow> []))"

text \<open>
  The totals as the specification words them: sums over the selected categories, the
  extras that are toggled on and all modifiers.
\<close>

definition selected :: "params \<Rightarrow> category \<Rightarrow> bool" where
  "selected p cat = truthy_str (selection_of p cat)"

definition catmod_amount :: "params \<Rightarrow> category \<Rightarrow> real" where
  "catmod_amount p cat =
     (case map_of (catMods p) (c_id cat) of Some md \<Rightarrow> m_amount md | None \<Rightarrow> 0)"

definition toggled_on :: "params \<Rightarrow> extra \<Rightarrow> bool" where
  "toggled_on p e = (map_of (extras p) (e_id e) = Some True)"

text \<open>A number that is an integer multiple of 100; \<open>NaN\<close> is not.\<close>

fun multiple_of_100 :: "jsnum \<Rightarrow> bool" where
  "multiple_of_100 (Num r) = (of_int \<lfloor>r / 100\<rfloor> * 100 = r)"
| "multiple_of_100 NaN = False"

text \<open>A tier name that \<open>cat.tiers\<close> does not own and \<open>Object.prototype\<close> provides.\<close>

definition inherited_tier :: "category \<Rightarrow> string option \<Rightarrow> bool" where
  "inherited_tier cat tier =
     (case tier of
        Some t \<Rightarrow> t \<noteq> [] \<and> read_prop (tiers cat) t = Inherited
      | None \<Rightarrow> False)"

text \<open>The occurrences of a tier name among the values of \<open>selections\<close>.\<close>

definition occurrences :: "(string \<times> string option) list \<Rightarrow> string \<Rightarrow> nat" where
  "occurrences sels t = count_list (map snd sels) (Some t)"

definition tier_names :: "string list" where
  "tier_names = [''good'', ''standard'', ''better'', ''best'']"

definition tier_label :: "string \<Rightarrow> string" where
  "tier_label t = (case map_of labels t of Some l \<Rightarrow> l | None \<Rightarrow> [])"

subsection \<open>Example inputs\<close>

definition networking :: category where
  "networking =
     \<lparr> c_id = ''networking'', c_sizeScale = 8 / 10, baseTierNoScale = False,
       isCustomized = False,
       tiers = [(''good'', \<lparr> t_price = 5700, t_sizeScale = None \<rparr>),
                (''best'', \<lparr> t_price = 21000, t_sizeScale = Some (1 / 2) \<rparr>)] \<rparr>"

definition audio :: category where
  "audio =
     \<lparr> c_id = ''audio'', c_sizeScale = 1, baseTierNoScale = True, isCustomized = False,
       tiers = [(''good'', \<lparr> t_price = 8000, t_sizeScale = None \<rparr>)] \<rparr>"

definition customized_shades :: category where
  "customized_shades =
     \<lparr> c_id = ''shades'', c_sizeScale = 1, baseTierNoScale = False, isCustomized = True,
       tiers = [(''good'', \<lparr> t_price = 1250, t_sizeScale = None \<rparr>)] \<rparr>"

definition poolAlarm :: extra where
  "poolAlarm = \<lparr> e_id = ''poolAlarm'', e_price = 2200, e_sizeScale = Some 1 \<rparr>"

definition example_params :: params where
  "example_params =
     \<lparr> categories = [networking, audio],
       selections = [(''networking'', Some ''good''), (''audio'', None)],
       extras = [(''poolAlarm'', True)],
       extrasData = [poolAlarm],
       modifiers = [\<lparr> m_name = ''credit'', m_amount = - 155 \<rparr>],
       catMods = [(''networking'', \<lparr> m_name = ''rack'', m_amount = 50 \<rparr>)],
       homeSize = 6000 \<rparr>"

definition inherited_params :: params where
  "inherited_params =
     \<lparr> categories = [networking],
       selections = [(''networking'', Some ''constructor'')],
       extras = [],
       extrasData = [],
       modifiers = [],
       catMods = [],
       homeSize = 4000 \<rparr>"

definition tied_selections :: "(string \<times> string option) list" where
  "tied_selections = [(''audio'', Some ''best''), (''lighting'', Some ''good''), (''shades'', None)]"

definition best_selections :: "(string \<times> string option) list" where
  "best_selections = [(''audio'', Some ''best''), (''lighting'', Some ''good''),
                      (''shades'', Some ''best''), (''theater'', Some ''premium'')]"

section \<open>Budget version store (server.js, SQLite)\<close>

subsection \<open>JSON values and the normalised state\<close>

text \<open>
  A budget state is whatever JSON the client sends (the schema says \<open>z.any()\<close>). An
  object is the list of its properties, whose keys are distinct; keys are taken not to
  name members of \<open>Object.prototype\<close>. A request without a state is the request with
  the state \<open>null\<close>: \<open>JSON.stringify(undefined)\<close> is \<open>undefined\<close>, stored as NULL, and
  \<open>JSON.parse\<close> reads \<open>null\<close> from a NULL column as it does from the text \<open>null\<close>.
\<close>

datatype json =
    JNull
  | JBool bool
  | JNum real
  | JStr string
  | JArr "json list"
  | JObj "(string \<times> json) list"

primrec truthy :: "json \<Rightarrow> bool" where
  "truthy JNull = False"
| "truthy (JBool b) = b"
| "truthy (JNum x) = (x \<noteq> 0)"
| "truthy (JStr s) = (s \<noteq> [])"
| "truthy (JArr xs) = True"
| "truthy (JObj kvs) = True"

text \<open>A number as JavaScript prints it in a template string or as an index key.\<close>

definition digit_char :: "nat \<Rightarrow> char" where
  "digit_char d = ''0123456789'' ! d"

fun show_nat :: "nat \<Rightarrow> string" where
  "show_nat n =
     (if n < 10 then [digit_char n]
      else show_nat (n div 10) @ [digit_char (n mod 10)])"

declare show_nat.simps [simp del]

text \<open>
  The own enumerable properties that \<open>const { timestamp, ...rest } = s\<close> copies: those
  of an object, the indices of an array or of a string, none for a number or a
  boolean.
\<close>

primrec own_properties :: "json \<Rightarrow> (string \<times> json) list" where
  "own_properties JNull = []"
| "own_properties (JBool b) = []"
| "own_properties (JNum x) = []"
| "own_properties (JStr s) = zip (map show_nat [0..<length s]) (map (\<lambda>c. JStr [c]) s)"
| "own_properties (JArr xs) = zip (map show_nat [0..<length xs]) xs"
| "own_properties (JObj kvs) = kvs"

text \<open>
  \<open>JSON.stringify(value, K)\<close> with an array \<open>K\<close> as replacer: of every object, at
  every depth, only the properties named in \<open>K\<close> are printed, in the order of \<open>K\<close>.
  The text is represented by the tree it prints, which determines it.
\<close>

definition pick :: "string list \<Rightarrow> (string \<times> 'a) list \<Rightarrow> (string \<times> 'a) list" where
  "pick K kvs =
     concat (map (\<lambda>k. case map_of kvs k of Some v \<Rightarrow> [(k, v)] | None \<Rightarrow> []) K)"

primrec stringify :: "string list \<Rightarrow> json \<Rightarrow> json" where
  "stringify K JNull = JNull"
| "stringify K (JBool b) = JBool b"
| "stringify K (JNum x) = JNum x"
| "stringify K (JStr s) = JStr s"
| "stringify K (JArr xs) = JArr (map (stringify K) xs)"
| "stringify K (JObj kvs) = JObj (pick K (map (map_prod id (stringify K)) kvs))"

text \<open>
  \<open>normalizeState\<close> of the update handler:
  \<^verbatim>\<open>const { timestamp, ...rest } = s || {};
  return JSON.stringify(rest, Object.keys(rest).sort());\<close>
\<close>

definition normalizeState :: "json \<Rightarrow> json" where
  "normalizeState s =
     (let rest = filter (\<lambda>(k, v). k \<noteq> ''timestamp'')
                   (own_properties (if truthy s then s else JObj []))
      in stringify (sort (remdups (map fst rest))) (JObj rest))"

text \<open>
  A property read \<open>s.key\<close> or \<open>s?.key\<close> for one of the keys \<open>clientName\<close>,
  \<open>homeSize\<close>, \<open>propertyType\<close>: \<open>None\<close> is \<open>undefined\<close>. The plain read of a
  property of \<open>null\<close> raises a TypeError, which the handlers check before they use
  \<open>member\<close>.
\<close>

definition member :: "json \<Rightarrow> string \<Rightarrow> json option" where
  "member s key = (case s of JObj kvs \<Rightarrow> map_of kvs key | _ \<Rightarrow> None)"

definition truthy_opt :: "json option \<Rightarrow> bool" where
  "truthy_opt v = (case v of Some x \<Rightarrow> truthy x | None \<Rightarrow> False)"

text \<open>
  What better-sqlite3 accepts as one positional parameter of \<open>run\<close>: numbers and
  strings always, and \<open>null\<close> and \<open>undefined\<close> alike, both bound as NULL. Its
  treatment of the other values (booleans, arrays, objects) lies outside the
  repository and is the parameter \<open>accepts\<close>.
\<close>

definition binds :: "(json \<Rightarrow> bool) \<Rightarrow> json option \<Rightarrow> bool" where
  "binds accepts v =
     (case v of
        None \<Rightarrow> True
      | Some JNull \<Rightarrow> True
      | Some (JNum x) \<Rightarrow> True
      | Some (JStr s) \<Rightarrow> True
      | Some x \<Rightarrow> accepts x)"

subsection \<open>The tables\<close>

text \<open>
  A row of \<open>budget_versions\<close>; \<open>v_note\<close> is its column \<open>note\<close>. \<open>created_at\<close> is
  the instant in milliseconds that \<open>new Date(lastVersion.timestamp)\<close> reads from the
  column; an insert stores the current time (\<open>DEFAULT CURRENT_TIMESTAMP\<close>, taken with
  the server clock in UTC and without its truncation to seconds). Of a row of
  \<open>budgets\<close> the columns that the version handlers read back are kept. The table
  \<open>budget_views\<close> plays no part in the version handlers and is left out.
\<close>

record version_row =
  budget_id :: string
  version_number :: nat
  created_at :: int
  state :: json
  v_note :: string
  is_pinned :: bool

record budget_row =
  client_name :: json
  current_state :: json
  is_customized :: bool

record database =
  budgets :: "string \<rightharpoonup> budget_row"
  budget_versions :: "version_row list"

text \<open>
  The versions of \<open>loadBudget\<close>:
  \<open>SELECT * FROM budget_versions WHERE budget_id = ? ORDER BY version_number ASC\<close>.
\<close>

definition versions_of :: "database \<Rightarrow> string \<Rightarrow> version_row list" where
  "versions_of db bid =
     sort_key version_number (filter (\<lambda>v. budget_id v = bid) (budget_versions db))"

definition loadBudget :: "database \<Rightarrow> string \<Rightarrow> (budget_row \<times> version_row list) option" where
  "loadBudget db bid =
     (case budgets db bid of
        None \<Rightarrow> None
      | Some budget \<Rightarrow> Some (budget, versions_of db bid))"

text \<open>
  \<open>saveBudget\<close> runs \<open>INSERT OR REPLACE INTO budgets\<close>. When a row with the id
  exists, SQLite resolves the conflict by deleting that row and inserting the new one;
  foreign keys are on (\<open>db.pragma('foreign_keys = ON')\<close>) and \<open>budget_versions\<close>
  declares \<open>budget_id TEXT REFERENCES budgets(id) ON DELETE CASCADE\<close>, so the delete
  removes every version row of the budget.
\<close>

definition saveBudget :: "database \<Rightarrow> string \<Rightarrow> budget_row \<Rightarrow> database" where
  "saveBudget db bid budget =
     \<lparr> budgets = (budgets db)(bid \<mapsto> budget),
       budget_versions =
         (if bid \<in> dom (budgets db)
          then filter (\<lambda>v. budget_id v \<noteq> bid) (budget_versions db)
          else budget_versions db) \<rparr>"

text \<open>\<open>addVersion\<close>: one \<open>INSERT INTO budget_versions\<close>; the note is \<open>note || ''\<close>.\<close>

definition addVersion ::
  "database \<Rightarrow> int \<Rightarrow> string \<Rightarrow> nat \<Rightarrow> json \<Rightarrow> string \<Rightarrow> bool \<Rightarrow> database" where
  "addVersion db now bid versionNum st nt isPinned =
     db \<lparr> budget_versions :=
            budget_versions db @
              [\<lparr> budget_id = bid, version_number = versionNum, created_at = now,
                 state = st, v_note = nt, is_pinned = isPinned \<rparr>] \<rparr>"

text \<open>\<open>UPDATE budget_versions SET ... WHERE budget_id = ? AND version_number = ?\<close>.\<close>

definition update_versions ::
  "database \<Rightarrow> string \<Rightarrow> nat \<Rightarrow> (version_row \<Rightarrow> version_row) \<Rightarrow> database" where
  "update_versions db bid versionNum f =
     db \<lparr> budget_versions :=
            map (\<lambda>v. if budget_id v = bid \<and> version_number v = versionNum then f v else v)
              (budget_versions db) \<rparr>"

text \<open>\<open>DELETE FROM budget_versions WHERE budget_id = ?\<close>.\<close>

definition delete_versions :: "database \<Rightarrow> string \<Rightarrow> database" where
  "delete_versions db bid =
     db \<lparr> budget_versions := filter (\<lambda>v. budget_id v \<noteq> bid) (budget_versions db) \<rparr>"

subsection \<open>The handlers\<close>

datatype response =
    NotFound
  | VersionNotFound
  | ServerError
  | Created
  | VersionPinned nat
  | NoChanges nat
  | Saved nat bool
  | Restored nat
  | Customized

text \<open>
  \<open>POST /api/budgets\<close>. The id is the code on which the generation loop stops, one
  that is not in \<open>budgets\<close>. \<open>clientName\<close> is the optional string of the request body.
\<close>

definition createBudget ::
  "(json \<Rightarrow> bool) \<Rightarrow> database \<Rightarrow> int \<Rightarrow> string \<Rightarrow> string option \<Rightarrow> json
     \<Rightarrow> response \<times> database" where
  "createBudget accepts db now bid clientName st =
     (if \<not> truthy_str clientName \<and> st = JNull then (ServerError, db)
      else
        let name = (if truthy_str clientName then Some (JStr (the clientName))
                    else if truthy_opt (member st ''clientName'') then member st ''clientName''
                    else Some JNull)
        in if \<not> binds accepts name then (ServerError, db)
           else
             let budget = \<lparr> client_name = the name, current_state = st,
                             is_customized = False \<rparr>;
                 db1 = saveBudget db bid budget;
                 db2 = addVersion db1 now bid 1 st ''Initial budget'' True
             in (Created, db2))"

text \<open>
  \<open>PUT /api/budgets/:id\<close>, the update. The request carries the state, an optional
  note and the pin flag (absent reads as false).
\<close>

record update_request =
  req_state :: json
  req_note :: "string option"
  req_pin :: bool

definition VERSION_CONSOLIDATION_MS :: int where
  "VERSION_CONSOLIDATION_MS = 15 * 60 * 1000"

text \<open>
  The version write of the update when the state has changed (the \<open>if\<close> on
  \<open>shouldConsolidate && !data.pin\<close>): an \<open>UPDATE\<close> of the latest version in place, or
  \<open>addVersion\<close> with the next number.
\<close>

definition shouldConsolidate :: "int \<Rightarrow> version_row \<Rightarrow> bool" where
  "shouldConsolidate now lastVersion =
     (let timeSinceLastVersion = now - created_at lastVersion
      in \<not> is_pinned lastVersion \<and> timeSinceLastVersion < VERSION_CONSOLIDATION_MS)"

definition version_note :: "update_request \<Rightarrow> string" where
  "version_note data =
     (if req_pin data
      then (if truthy_str (req_note data) then the (req_note data) else ''Shared/Emailed'')
      else ''Auto-save'')"

definition record_version ::
  "database \<Rightarrow> int \<Rightarrow> string \<Rightarrow> update_request \<Rightarrow> version_row list \<Rightarrow> database" where
  "record_version db now bid data versions =
     (let lastVersion = last versions in
      if shouldConsolidate now lastVersion \<and> \<not> req_pin data then
        update_versions db bid (version_number lastVersion)
          (\<lambda>v. v \<lparr> state := req_state data, created_at := now \<rparr>)
      else
        let newVersionNum = length versions + 1
        in addVersion db now bid newVersionNum (req_state data) (version_note data)
             (req_pin data))"

definition updateBudget ::
  "(json \<Rightarrow> bool) \<Rightarrow> database \<Rightarrow> int \<Rightarrow> string \<Rightarrow> update_request
     \<Rightarrow> response \<times> database" where
  "updateBudget accepts db now bid data =
     (case loadBudget db bid of
        None \<Rightarrow> (NotFound, db)
      | Some (budget, versions) \<Rightarrow>
          if versions = [] then (ServerError, db)
          else
            let lastVersion = last versions in
            if normalizeState (state lastVersion) = normalizeState (req_state data) then
              if req_pin data \<and> \<not> is_pinned lastVersion then
                (VersionPinned (length versions),
                 update_versions db bid (version_number lastVersion)
                   (\<lambda>v. v \<lparr> is_pinned := True,
                            v_note := (if truthy_str (req_note data) then the (req_note data)
                                       else v_note lastVersion) \<rparr>))
              else (NoChanges (length versions), db)
            else
              let db1 = record_version db now bid data versions;
                  consolidated = (shouldConsolidate now lastVersion \<and> \<not> req_pin data)
              in if req_state data = JNull then (ServerError, db1)
                 else
                   let clientName = (if truthy_opt (member (req_state data) ''clientName'')
                                     then the (member (req_state data) ''clientName'')
                                     else client_name budget);
                       bound = (if truthy clientName then clientName else JNull)
                   in if \<not> binds accepts (Some bound) then (ServerError, db1)
                      else
                        (Saved (if consolidated then length versions
                                else length versions + 1) consolidated,
                         saveBudget db1 bid
                           (budget \<lparr> client_name := bound,
                                     current_state := req_state data \<rparr>)))"

text \<open>
  \<open>POST /api/admin/budgets/:id/restore/:version\<close>, after authentication.
  \<open>versionNum\<close> is the number that \<open>parseInt\<close> reads; a negative number or \<open>NaN\<close>
  matches no version, as a number that is not stored does.
\<close>

definition restoreVersion ::
  "database \<Rightarrow> int \<Rightarrow> string \<Rightarrow> nat \<Rightarrow> response \<times> database" where
  "restoreVersion db now bid versionNum =
     (case loadBudget db bid of
        None \<Rightarrow> (NotFound, db)
      | Some (budget, versions) \<Rightarrow>
          (case find (\<lambda>v. version_number v = versionNum) versions of
             None \<Rightarrow> (VersionNotFound, db)
           | Some targetVersion \<Rightarrow>
               let newVersionNum = length versions + 1;
                   db1 = addVersion db now bid newVersionNum (state targetVersion)
                           (''Restored to version '' @ show_nat versionNum) True;
                   db2 = db1 \<lparr> budgets :=
                                 (budgets db1)(bid \<mapsto>
                                    budget \<lparr> current_state := state targetVersion \<rparr>) \<rparr>
               in (Restored newVersionNum, db2)))"

text \<open>
  \<open>PUT /api/admin/budgets/:id/customize\<close>, after authentication. The first statement
  binds \<open>budget.currentState?.homeSize || budget.versions[0]?.state?.homeSize\<close> and
  the same for \<open>propertyType\<close>, each of which may be \<open>undefined\<close>. The configuration
  of the request body (an object, as \<open>express.json\<close> leaves it) is bound as a text or
  as \<open>null\<close>; it is not read back by the version handlers and is left out of the row.
  The state of the new version is
  \<open>budget.currentState || budget.versions[budget.versions.length - 1]?.state\<close>; when
  that is \<open>undefined\<close> the column is NULL, which reads back as \<open>null\<close>.
\<close>

definition locked_value :: "budget_row \<Rightarrow> version_row list \<Rightarrow> string \<Rightarrow> json option" where
  "locked_value budget versions key =
     (if truthy_opt (member (current_state budget) key) then member (current_state budget) key
      else (case versions of [] \<Rightarrow> None | v # vs \<Rightarrow> member (state v) key))"

definition customizeBudget ::
  "(json \<Rightarrow> bool) \<Rightarrow> database \<Rightarrow> int \<Rightarrow> string \<Rightarrow> response \<times> database" where
  "customizeBudget accepts db now bid =
     (case loadBudget db bid of
        None \<Rightarrow> (NotFound, db)
      | Some (budget, versions) \<Rightarrow>
          if \<not> binds accepts (locked_value budget versions ''homeSize'') \<or>
             \<not> binds accepts (locked_value budget versions ''propertyType'')
          then (ServerError, db)
          else
            let db1 = db \<lparr> budgets := (budgets db)(bid \<mapsto> budget \<lparr> is_customized := True \<rparr>) \<rparr>;
                db2 = delete_versions db1 bid;
                currentState = (if truthy (current_state budget) then Some (current_state budget)
                                else if versions = [] then None
                                else Some (state (last versions)));
                stored = (case currentState of None \<Rightarrow> JNull | Some st \<Rightarrow> st)
            in (Customized, addVersion db2 now bid 1 stored ''Customization applied'' True))"

subsection \<open>The invariant of the version numbers\<close>

text \<open>
  The version numbers of a budget, in the order of \<open>loadBudget\<close>, are 1, 2, ..., n.
  The store is in order when this holds of every budget and every version row belongs
  to a budget (the foreign key).
\<close>

definition version_inv :: "database \<Rightarrow> string \<Rightarrow> bool" where
  "version_inv db bid =
     (map version_number (versions_of db bid) = [1..<Suc (length (versions_of db bid))])"

definition foreign_keys_ok :: "database \<Rightarrow> bool" where
  "foreign_keys_ok db = list_all (\<lambda>v. budget_id v \<in> dom (budgets db)) (budget_versions db)"

definition store_inv :: "database \<Rightarrow> bool" where
  "store_inv db = (foreign_keys_ok db \<and> (\<forall>bid. version_inv db bid))"

subsection \<open>Example store\<close>

definition state0 :: json where
  "state0 = JObj [(''homeSize'', JNum 4000), (''propertyType'', JStr ''residential''),
                  (''selections'', JObj []), (''total'', JNum 0)]"

definition state1 :: json where
  "state1 = JObj [(''homeSize'', JNum 4000), (''propertyType'', JStr ''residential''),
                  (''selections'', JObj [(''networking'', JStr ''good'')]),
                  (''total'', JNum 5700)]"

text \<open>The state \<open>state1\<close> sent again: a time stamp added, the keys in another order.\<close>

definition state1_resent :: json where
  "state1_resent = JObj [(''timestamp'', JNum 1700000000), (''total'', JNum 5700),
                         (''selections'', JObj [(''networking'', JStr ''good'')]),
                         (''propertyType'', JStr ''residential''),
                         (''homeSize'', JNum 4000)]"

definition state2 :: json where
  "state2 = JObj [(''homeSize'', JNum 4000), (''propertyType'', JStr ''residential''),
                  (''selections'', JObj [(''networking'', JStr ''best'')]),
                  (''total'', JNum 21000)]"

definition version1 :: version_row where
  "version1 = \<lparr> budget_id = ''b1'', version_number = 1, created_at = 0, state = state0,
                v_note = ''Initial budget'', is_pinned = True \<rparr>"

definition version2 :: version_row where
  "version2 = \<lparr> budget_id = ''b1'', version_number = 2, created_at = 1000, state = state1,
                v_note = ''Auto-save'', is_pinned = False \<rparr>"

definition budget1 :: budget_row where
  "budget1 = \<lparr> client_name = JNull, current_state = state0, is_customized = False \<rparr>"

definition store1 :: database where
  "store1 = \<lparr> budgets = [''b1'' \<mapsto> budget1], budget_versions = [version1] \<rparr>"

definition store2 :: database where
  "store2 = \<lparr> budgets = [''b1'' \<mapsto> budget1 \<lparr> current_state := state1 \<rparr>],
              budget_versions = [version1, version2] \<rparr>"

text \<open>A driver that accepts none of the values whose binding is left open.\<close>

definition no_exotic :: "json \<Rightarrow> bool" where
  "no_exotic x = False"

definition resave_request :: update_request where
  "resave_request = \<lparr> req_state = state1_resent, req_note = None, req_pin = False \<rparr>"

definition pin_request :: update_request where
  "pin_request =
     \<lparr> req_state = state1_resent, req_note = Some ''Sent to client'', req_pin = True \<rparr>"

definition autosave_request :: update_request where
  "autosave_request = \<lparr> req_state = state2, req_note = None, req_pin = False \<rparr>"

definition noted_request :: update_request where
  "noted_request = \<lparr> req_state = state1, req_note = Some ''Client call'', req_pin = False \<rparr>"

text \<open>The state \<open>state1\<close> with another tier selected and nothing else changed.\<close>

definition state1_retiered :: json where
  "state1_retiered =
     JObj [(''homeSize'', JNum 4000), (''propertyType'', JStr ''residential''),
           (''selections'', JObj [(''networking'', JStr ''best'')]),
           (''total'', JNum 5700)]"

definition retier_request :: update_request where
  "retier_request = \<lparr> req_state = state1_retiered, req_note = None, req_pin = False \<rparr>"

text \<open>A budget whose states carry neither \<open>homeSize\<close> nor \<open>propertyType\<close>.\<close>

definition bare_state :: json where
  "bare_state = JObj [(''selections'', JObj []), (''total'', JNum 0)]"

definition bare_version :: version_row where
  "bare_version = \<lparr> budget_id = ''b3'', version_number = 1, created_at = 0,
                    state = bare_state, v_note = ''Initial budget'', is_pinned = True \<rparr>"

definition store3 :: database where
  "store3 = \<lparr> budgets = [''b3'' \<mapsto> \<lparr> client_name = JNull, current_state = bare_state,
                                      is_customized = False \<rparr>],
              budget_versions = [bare_version] \<rparr>"

section \<open>Properties of the pricing calculations\<close>

subsection \<open>The size multiplier\<close>

lemma getSizeMultiplier_nonzero:
  "s \<noteq> 0 \<Longrightarrow> getSizeMultiplier x s = 1 + (max x 2500 / 4000 - 1) * s"
  by (simp add: getSizeMultiplier_def)

text \<open>
  Claim C8. For a fixed positive scale factor the size multiplier never decreases
  when the square footage grows, and for a fixed negative one it never increases.
  Below the floor of 2500 sq ft the multiplier is constant; from the floor on the
  monotonicity is strict.
\<close>

theorem C8_getSizeMultiplier_monotone:
  "(0 < s \<and> a \<le> b \<longrightarrow> getSizeMultiplier a s \<le> getSizeMultiplier b s) \<and>
   (s < 0 \<and> a \<le> b \<longrightarrow> getSizeMultiplier b s \<le> getSizeMultiplier a s) \<and>
   (0 < s \<and> 2500 \<le> a \<and> a < b \<longrightarrow> getSizeMultiplier a s < getSizeMultiplier b s) \<and>
   (s < 0 \<and> 2500 \<le> a \<and> a < b \<longrightarrow> getSizeMultiplier b s < getSizeMultiplier a s) \<and>
   (a \<le> 2500 \<and> b \<le> 2500 \<longrightarrow> getSizeMultiplier a s = getSizeMultiplier b s)"
proof (intro conjI impI)
  assume "0 < s \<and> a \<le> b"
  then have "0 < s" and "a \<le> b" by simp_all
  then show "getSizeMultiplier a s \<le> getSizeMultiplier b s"
    by (simp add: getSizeMultiplier_def divide_right_mono)
next
  assume "s < 0 \<and> a \<le> b"
  then have "s < 0" and "a \<le> b" by simp_all
  then show "getSizeMultiplier b s \<le> getSizeMultiplier a s"
    by (simp add: getSizeMultiplier_def mult_le_cancel_right divide_right_mono)
next
  assume "0 < s \<and> 2500 \<le> a \<and> a < b"
  then have "0 < s" and "2500 \<le> a" and "a < b" by simp_all
  then show "getSizeMultiplier a s < getSizeMultiplier b s"
    by (simp add: getSizeMultiplier_def max_def)
next
  assume "s < 0 \<and> 2500 \<le> a \<and> a < b"
  then have "s < 0" and "2500 \<le> a" and "a < b" by simp_all
  then show "getSizeMultiplier b s < getSizeMultiplier a s"
    by (simp add: getSizeMultiplier_def max_def)
next
  assume "a \<le> 2500 \<and> b \<le> 2500"
  then have "a \<le> 2500" and "b \<le> 2500" by simp_all
  then show "getSizeMultiplier a s = getSizeMultiplier b s"
    by (simp add: getSizeMultiplier_def max_def)
qed

theorem C8_getSizeMultiplier_monotone_witness:
  "getSizeMultiplier 3000 1 = 3 / 4 \<and> getSizeMultiplier 6000 1 = 3 / 2 \<and>
   getSizeMultiplier 3000 1 < getSizeMultiplier 6000 1 \<and>
   getSizeMultiplier 6000 (- 1) < getSizeMultiplier 3000 (- 1) \<and>
   getSizeMultiplier 1000 1 = getSizeMultiplier 2000 1"
  using C8_getSizeMultiplier_monotone [of 1 3000 6000]
    C8_getSizeMultiplier_monotone [of "- 1" 3000 6000]
    C8_getSizeMultiplier_monotone [of 1 1000 2000]
  by (simp add: getSizeMultiplier_def)

subsection \<open>The category price\<close>

lemma multiple_of_100_iff: "multiple_of_100 (Num r) \<longleftrightarrow> (\<exists>k::int. r = 100 * of_int k)"
proof
  assume "multiple_of_100 (Num r)"
  then have "r = 100 * of_int \<lfloor>r / 100\<rfloor>" by simp
  then show "\<exists>k::int. r = 100 * of_int k" ..
next
  assume "\<exists>k::int. r = 100 * of_int k"
  then obtain k :: int where "r = 100 * of_int k" ..
  then show "multiple_of_100 (Num r)" by simp
qed

lemma multiple_of_100_zero: "multiple_of_100 (Num 0)"
  by simp

lemma multiple_of_100_rounded: "multiple_of_100 (Num (Math_round x * 100))"
  by (simp add: Math_round_def)

lemma getCategoryPrice_falsy_tier:
  "\<not> truthy_str tier \<Longrightarrow> getCategoryPrice cat tier hs = Num 0"
  by (simp add: getCategoryPrice_def truthy_str_def split: option.splits)

lemma getCategoryPrice_missing_tier:
  "read_prop (tiers cat) t = Missing \<Longrightarrow> getCategoryPrice cat (Some t) hs = Num 0"
  by (simp add: getCategoryPrice_def)

lemma getCategoryPrice_inherited_tier:
  "t \<noteq> [] \<Longrightarrow> read_prop (tiers cat) t = Inherited \<Longrightarrow> getCategoryPrice cat (Some t) hs = NaN"
  by (simp add: getCategoryPrice_def)

text \<open>
  Claim C6, amended. For a category that is not customized, every home size and every
  tier that is none, empty, an own tier of the category or no property of the tier
  object at all, the category price is a multiple of 100. For a customized category
  the price of an own tier is the tier's raw price, whatever it is.
\<close>

theorem C6_getCategoryPrice_multiple_of_100:
  "(\<not> isCustomized cat \<and> \<not> inherited_tier cat tier \<longrightarrow>
      multiple_of_100 (getCategoryPrice cat tier hs)) \<and>
   (isCustomized cat \<and> t \<noteq> [] \<and> read_prop (tiers cat) t = Own td \<longrightarrow>
      getCategoryPrice cat (Some t) hs = Num (t_price td))"
proof (intro conjI impI)
  assume a: "\<not> isCustomized cat \<and> \<not> inherited_tier cat tier"
  show "multiple_of_100 (getCategoryPrice cat tier hs)"
  proof (cases tier)
    case None
    then show ?thesis by (simp add: getCategoryPrice_def)
  next
    case (Some t)
    show ?thesis
    proof (cases "read_prop (tiers cat) t")
      case (Own tierData)
      with a Some show ?thesis
        by (simp add: getCategoryPrice_def Let_def multiple_of_100_rounded
            multiple_of_100_zero del: multiple_of_100.simps)
    next
      case Inherited
      with a Some show ?thesis
        by (simp add: getCategoryPrice_def inherited_tier_def)
    next
      case Missing
      with Some show ?thesis
        by (simp add: getCategoryPrice_def)
    qed
  qed
next
  assume "isCustomized cat \<and> t \<noteq> [] \<and> read_prop (tiers cat) t = Own td"
  then show "getCategoryPrice cat (Some t) hs = Num (t_price td)"
    by (simp add: getCategoryPrice_def)
qed

text \<open>
  Claim C6 as stated fails: a customized category returns the raw price of the tier,
  here 1250, which is not a multiple of 100.
\<close>

theorem C6_customized_counterexample:
  "getCategoryPrice customized_shades (Some ''good'') 4000 = Num 1250 \<and>
   \<not> multiple_of_100 (getCategoryPrice customized_shades (Some ''good'') 4000)"
  by (simp add: getCategoryPrice_def customized_shades_def read_prop_def)

theorem C6_getCategoryPrice_multiple_of_100_witness:
  "getCategoryPrice networking (Some ''good'') 6000 = Num 8000 \<and>
   multiple_of_100 (getCategoryPrice networking (Some ''good'') 6000) \<and>
   multiple_of_100 (getCategoryPrice networking (Some ''premium'') 6000) \<and>
   getCategoryPrice customized_shades (Some ''good'') 6000 = Num 1250"
  using C6_getCategoryPrice_multiple_of_100
          [of networking "Some ''good''" 6000 "''good''" "\<lparr> t_price = 5700, t_sizeScale = None \<rparr>"]
        C6_getCategoryPrice_multiple_of_100
          [of networking "Some ''premium''" 6000 "''good''" "\<lparr> t_price = 5700, t_sizeScale = None \<rparr>"]
        C6_getCategoryPrice_multiple_of_100
          [of customized_shades "Some ''good''" 6000 "''good''" "\<lparr> t_price = 1250, t_sizeScale = None \<rparr>"]
  by (simp add: inherited_tier_def read_prop_def networking_def customized_shades_def
      object_prototype_keys_def getCategoryPrice_def getSizeMultiplier_def Math_round_def)

text \<open>
  Claim C7 at a failing input. The tier name \<open>constructor\<close> is not among the tiers of
  the category, yet \<open>cat.tiers[tier]\<close> finds \<open>Object.prototype.constructor\<close>, the guard
  \<open>if (!tierData) return 0\<close> does not fire, and the selection is priced as \<open>NaN\<close>
  instead of 0; every total that depends on it is \<open>NaN\<close>. No exception is raised.
\<close>

theorem C7_inherited_tier_name_priced_NaN:
  "map_of (tiers networking) ''constructor'' = None \<and>
   getCategoryPrice networking (Some ''constructor'') 4000 = NaN \<and>
   subtotal (calculateTotal inherited_params) = NaN \<and>
   equipmentSubtotal (calculateTotal inherited_params) = NaN \<and>
   taxEstimate (calculateTotal inherited_params) = NaN \<and>
   grandTotal (calculateTotal inherited_params) = NaN \<and>
   selectedCount (calculateTotal inherited_params) = 1"
  by (simp add: calculateTotal_def category_step_def inherited_params_def selection_of_def
      truthy_str_def getCategoryPrice_def networking_def read_prop_def
      object_prototype_keys_def)

subsection \<open>The totals\<close>

lemma Num_zero: "Num 0 = 0"
  by (simp add: zero_jsnum_def)

lemma category_step_selected:
  "selected p c \<Longrightarrow>
     category_step p c (s, n) =
       (s + (getCategoryPrice c (selection_of p c) (homeSize p) + Num (catmod_amount p c)), Suc n)"
  by (simp add: category_step_def selected_def catmod_amount_def Num_zero add.assoc Let_def
      split: option.split)

lemma category_step_unselected:
  "\<not> selected p c \<Longrightarrow> category_step p c acc = acc"
  by (simp add: category_step_def selected_def split: prod.split)

lemma fold_category_step:
  "fold (category_step p) cs (s, n) =
     (s + (\<Sum>c\<leftarrow>filter (selected p) cs.
             getCategoryPrice c (selection_of p c) (homeSize p) + Num (catmod_amount p c)),
      n + length (filter (selected p) cs))"
proof (induction cs arbitrary: s n)
  case Nil
  show ?case by simp
next
  case (Cons c cs)
  show ?case
  proof (cases "selected p c")
    case True
    then show ?thesis
      by (simp add: category_step_selected Cons.IH add.assoc)
  next
    case False
    then show ?thesis
      by (simp add: category_step_unselected Cons.IH)
  qed
qed

lemma fold_extra_step:
  "fold (extra_step p) es x =
     x + (\<Sum>e\<leftarrow>filter (toggled_on p) es. getExtraPrice e (homeSize p))"
  by (induction es arbitrary: x) (simp_all add: extra_step_def toggled_on_def)

lemma fold_modifier_step:
  "fold modifier_step ms x = x + (\<Sum>m\<leftarrow>ms. m_amount m)"
  by (induction ms arbitrary: x) (simp_all add: modifier_step_def)

text \<open>
  Claim C1. The loops of \<open>calculateTotal\<close> compute the sums of the specification:
  \<open>subtotal\<close> is the sum, over the categories of the catalog whose selection is not
  none, of the category price plus the amount of the per-category modifier (0 when
  there is none); \<open>selectedCount\<close> is the number of these categories; \<open>extrasTotal\<close>
  is the sum of the extra prices over the extras toggled on; \<open>modifiersTotal\<close> is
  the sum of all modifier amounts, negative ones included; \<open>equipmentSubtotal\<close> is
  the sum of the three; \<open>taxEstimate\<close> is the equipment subtotal times 0.07,
  rounded to the nearest integer; \<open>grandTotal\<close> is their sum.
\<close>

theorem C1_calculateTotal_totals:
  "subtotal (calculateTotal p) =
     (\<Sum>c\<leftarrow>filter (selected p) (categories p).
        getCategoryPrice c (selection_of p c) (homeSize p) + Num (catmod_amount p c)) \<and>
   selectedCount (calculateTotal p) = length (filter (selected p) (categories p)) \<and>
   extrasTotal (calculateTotal p) =
     (\<Sum>e\<leftarrow>filter (toggled_on p) (extrasData p). getExtraPrice e (homeSize p)) \<and>
   modifiersTotal (calculateTotal p) = (\<Sum>m\<leftarrow>modifiers p. m_amount m) \<and>
   equipmentSubtotal (calculateTotal p) =
     subtotal (calculateTotal p) + Num (extrasTotal (calculateTotal p))
       + Num (modifiersTotal (calculateTotal p)) \<and>
   taxEstimate (calculateTotal p) =
     js_round (js_times (equipmentSubtotal (calculateTotal p)) (7 / 100)) \<and>
   grandTotal (calculateTotal p) =
     equipmentSubtotal (calculateTotal p) + taxEstimate (calculateTotal p)"
  by (simp add: calculateTotal_def fold_category_step fold_extra_step fold_modifier_step
      Let_def Num_zero)

theorem C1_calculateTotal_totals_witness:
  "subtotal (calculateTotal example_params) = Num 8050 \<and>
   selectedCount (calculateTotal example_params) = 1 \<and>
   extrasTotal (calculateTotal example_params) = 3300 \<and>
   modifiersTotal (calculateTotal example_params) = - 155 \<and>
   equipmentSubtotal (calculateTotal example_params) = Num 11195 \<and>
   taxEstimate (calculateTotal example_params) = Num 784 \<and>
   grandTotal (calculateTotal example_params) = Num 11979"
proof -
  note t = C1_calculateTotal_totals [of example_params]
  have sel: "filter (selected example_params) (categories example_params) = [networking]"
    by (simp add: example_params_def selected_def selection_of_def truthy_str_def
        networking_def audio_def)
  have price: "getCategoryPrice networking (selection_of example_params networking)
                 (homeSize example_params) = Num 8000"
    by (simp add: getCategoryPrice_def selection_of_def example_params_def networking_def
        read_prop_def getSizeMultiplier_def Math_round_def)
  have amt: "catmod_amount example_params networking = 50"
    by (simp add: catmod_amount_def example_params_def networking_def)
  have s: "subtotal (calculateTotal example_params) = Num 8050"
    using t by (simp add: sel price amt)
  have n: "selectedCount (calculateTotal example_params) = 1"
    using t by (simp add: sel)
  have e: "extrasTotal (calculateTotal example_params) = 3300"
    using t by (simp add: example_params_def toggled_on_def poolAlarm_def getExtraPrice_def
        getSizeMultiplier_def Math_round_def)
  have m: "modifiersTotal (calculateTotal example_params) = - 155"
    using t by (simp add: example_params_def)
  have q: "equipmentSubtotal (calculateTotal example_params) = Num 11195"
    using t by (simp add: s e m)
  have x: "taxEstimate (calculateTotal example_params) = Num 784"
    using t by (simp add: q Math_round_def)
  have g: "grandTotal (calculateTotal example_params) = Num 11979"
    using t by (simp add: q x)
  show ?thesis using s n e m q x g by simp
qed

subsection \<open>The dominant tier\<close>

lemma count_step_keys: "map fst (count_step t cs) = map fst cs"
  by (auto simp add: count_step_def split: prod.split)

lemma count_step_eq:
  assumes "[] \<notin> set (map fst cs)"
  shows "count_step t cs = map (\<lambda>(k, n). (k, n + count_list [t] (Some k))) cs"
proof (cases "truthy_str t \<and> the t \<in> set (map fst cs)")
  case True
  then obtain s where s: "t = Some s" "s \<noteq> []" "s \<in> set (map fst cs)"
    by (auto simp add: truthy_str_def split: option.splits)
  show ?thesis
    using s by (auto simp add: count_step_def truthy_str_def)
next
  case False
  have "\<forall>(k, n) \<in> set cs. count_list [t] (Some k) = 0"
    using False assms by (force simp add: truthy_str_def split: option.splits)
  then have same: "map (\<lambda>(k, n). (k, n + count_list [t] (Some k))) cs = cs"
    by (induction cs) auto
  have "count_step t cs = cs"
    using False by (auto simp add: count_step_def)
  then show ?thesis
    by (simp only: same)
qed

lemma fold_count_step:
  "[] \<notin> set (map fst cs) \<Longrightarrow>
     fold count_step ts cs = map (\<lambda>(k, n). (k, n + count_list ts (Some k))) cs"
proof (induction ts arbitrary: cs)
  case Nil
  show ?case by (simp add: case_prod_unfold)
next
  case (Cons t ts)
  have keys: "[] \<notin> set (map fst (count_step t cs))"
    unfolding count_step_keys by (rule Cons.prems)
  have "fold count_step (t # ts) cs = fold count_step ts (count_step t cs)"
    by simp
  also have "\<dots> = map (\<lambda>(k, n). (k, n + count_list ts (Some k))) (count_step t cs)"
    by (rule Cons.IH [OF keys])
  also have "\<dots> = map (\<lambda>(k, n). (k, n + count_list (t # ts) (Some k))) cs"
    by (simp add: count_step_eq [OF Cons.prems] case_prod_unfold)
  finally show ?case .
qed

lemma tierCounts_occurrences:
  "fold count_step (map snd sels) initial_tierCounts =
     map (\<lambda>t. (t, occurrences sels t)) tier_names"
  by (simp add: fold_count_step initial_tierCounts_def tier_names_def occurrences_def)

lemma getDominantTier_counts:
  "getDominantTier sels =
     (let g = occurrences sels ''good''; s = occurrences sels ''standard'';
          b = occurrences sels ''better''; x = occurrences sels ''best'';
          m = max x (max b (max s g))
      in if m = 0 then []
         else if g = m then ''Good Tier''
         else if s = m then ''Standard Tier''
         else if b = m then ''Better Tier''
         else ''Best Tier'')"
  by (simp add: getDominantTier_def tierCounts_occurrences tier_names_def Math_max_def
      labels_def Let_def max_def)


lemma occurrences_mset:
  "mset sels = mset sels' \<Longrightarrow> occurrences sels t = occurrences sels' t"
proof -
  assume "mset sels = mset sels'"
  then have "mset (map snd sels) = mset (map snd sels')"
    by (metis mset_map)
  then show ?thesis
    unfolding occurrences_def by (metis count_mset)
qed

lemma occurrences_filter_tiers:
  "t \<in> set tier_names \<Longrightarrow>
     occurrences (filter (\<lambda>(k, v). v \<in> set (map Some tier_names)) sels) t = occurrences sels t"
  unfolding occurrences_def
  by (induction sels) auto

lemma getDominantTier_cong:
  "\<forall>t\<in>set tier_names. occurrences sels t = occurrences sels' t \<Longrightarrow>
     getDominantTier sels = getDominantTier sels'"
  by (simp add: getDominantTier_counts tier_names_def)

text \<open>
  Claim C10. \<open>getDominantTier\<close> returns the empty string when none of the four tier
  names occurs, and otherwise the label of the first tier, in the order good, standard,
  better, best, whose count is the maximum. The result depends on the selections only
  through the four counts: not on the order of the selections, and not on values
  other than the four tier names.
\<close>

theorem C10_getDominantTier_tie_break:
  "getDominantTier sels =
     (if \<forall>t\<in>set tier_names. occurrences sels t = 0 then []
      else (case find (\<lambda>t. \<forall>u\<in>set tier_names. occurrences sels u \<le> occurrences sels t)
                   tier_names of
              Some t \<Rightarrow> tier_label t
            | None \<Rightarrow> [])) \<and>
   ((\<forall>t\<in>set tier_names. occurrences sels t = occurrences sels' t) \<longrightarrow>
      getDominantTier sels = getDominantTier sels') \<and>
   (mset sels = mset sels' \<longrightarrow> getDominantTier sels = getDominantTier sels') \<and>
   getDominantTier (filter (\<lambda>(k, v). v \<in> set (map Some tier_names)) sels) =
     getDominantTier sels"
proof (intro conjI impI)
  show "getDominantTier sels =
     (if \<forall>t\<in>set tier_names. occurrences sels t = 0 then []
      else (case find (\<lambda>t. \<forall>u\<in>set tier_names. occurrences sels u \<le> occurrences sels t)
                   tier_names of
              Some t \<Rightarrow> tier_label t
            | None \<Rightarrow> []))"
    by (simp add: getDominantTier_counts tier_names_def tier_label_def labels_def Let_def max_def)
next
  assume "\<forall>t\<in>set tier_names. occurrences sels t = occurrences sels' t"
  then show "getDominantTier sels = getDominantTier sels'"
    by (rule getDominantTier_cong)
next
  assume "mset sels = mset sels'"
  then show "getDominantTier sels = getDominantTier sels'"
    by (simp add: getDominantTier_counts occurrences_mset [of sels sels'])
next
  show "getDominantTier (filter (\<lambda>(k, v). v \<in> set (map Some tier_names)) sels) =
     getDominantTier sels"
    by (rule getDominantTier_cong, rule ballI, rule occurrences_filter_tiers)
qed




theorem C10_getDominantTier_tie_break_witness:
  "getDominantTier tied_selections = ''Good Tier'' \<and>
   getDominantTier (rev tied_selections) = ''Good Tier'' \<and>
   getDominantTier best_selections = ''Best Tier''"
  using C10_getDominantTier_tie_break [of tied_selections "rev tied_selections"]
    C10_getDominantTier_tie_break [of best_selections best_selections]
  by (simp add: getDominantTier_counts tied_selections_def best_selections_def occurrences_def tier_names_def
      tier_label_def labels_def)

section \<open>Properties of the budget version store\<close>

subsection \<open>The ordered list of versions\<close>

lemma insort_key_snoc:
  "f a \<le> f x \<Longrightarrow> insort_key f a (ys @ [x]) = insort_key f a ys @ [x]"
  by (induction ys) simp_all

lemma sort_key_snoc:
  "\<forall>y\<in>set xs. f y \<le> f x \<Longrightarrow> sort_key f (xs @ [x]) = sort_key f xs @ [x]"
proof (induction xs)
  case Nil
  show ?case by simp
next
  case (Cons a xs)
  then have "sort_key f (xs @ [x]) = sort_key f xs @ [x]" and "f a \<le> f x"
    by simp_all
  then show ?case
    by (simp add: insort_key_snoc)
qed

lemma insort_key_map:
  "(\<And>z. f (g z) = f z) \<Longrightarrow> insort_key f (g a) (map g ys) = map g (insort_key f a ys)"
  by (induction ys) simp_all

lemma sort_key_map:
  "(\<And>z. f (g z) = f z) \<Longrightarrow> sort_key f (map g xs) = map g (sort_key f xs)"
  by (induction xs) (simp_all add: insort_key_map)

lemma filter_budget_map:
  "(\<And>v. budget_id (g v) = budget_id v) \<Longrightarrow>
     filter (\<lambda>v. budget_id v = b) (map g rows) = map g (filter (\<lambda>v. budget_id v = b) rows)"
  by (induction rows) simp_all

lemma filter_budget_other:
  "b' \<noteq> b \<Longrightarrow>
     filter (\<lambda>v. budget_id v = b') (filter (\<lambda>v. budget_id v \<noteq> b) rows) =
       filter (\<lambda>v. budget_id v = b') rows"
  by (induction rows) auto

lemma filter_budget_same:
  "filter (\<lambda>v. budget_id v = b) (filter (\<lambda>v. budget_id v \<noteq> b) rows) = []"
  by (induction rows) auto

lemma versions_of_budgets_update [simp]:
  "versions_of (db \<lparr> budgets := b \<rparr>) bid = versions_of db bid"
  by (simp add: versions_of_def)

lemma versions_of_addVersion_other:
  "bid' \<noteq> bid \<Longrightarrow> versions_of (addVersion db now bid n st nt p) bid' = versions_of db bid'"
  by (simp add: versions_of_def addVersion_def)

lemma versions_of_addVersion:
  assumes "\<forall>v\<in>set (versions_of db bid). version_number v \<le> n"
  shows "versions_of (addVersion db now bid n st nt p) bid =
           versions_of db bid @
             [\<lparr> budget_id = bid, version_number = n, created_at = now, state = st,
                v_note = nt, is_pinned = p \<rparr>]"
proof -
  let ?xs = "filter (\<lambda>v. budget_id v = bid) (budget_versions db)"
  let ?r = "\<lparr> budget_id = bid, version_number = n, created_at = now, state = st,
              v_note = nt, is_pinned = p \<rparr>"
  have "\<forall>y\<in>set ?xs. version_number y \<le> version_number ?r"
    using assms by (simp add: versions_of_def)
  then have "sort_key version_number (?xs @ [?r]) = sort_key version_number ?xs @ [?r]"
    by (rule sort_key_snoc)
  then show ?thesis
    by (simp add: versions_of_def addVersion_def)
qed

lemma versions_of_update_versions:
  assumes "\<And>v. version_number (f v) = version_number v"
    and "\<And>v. budget_id (f v) = budget_id v"
  shows "versions_of (update_versions db bid n f) bid' =
           map (\<lambda>v. if budget_id v = bid \<and> version_number v = n then f v else v)
             (versions_of db bid')"
proof -
  let ?g = "\<lambda>v. if budget_id v = bid \<and> version_number v = n then f v else v"
  have key: "\<And>z. version_number (?g z) = version_number z"
    by (simp add: assms)
  have "filter (\<lambda>v. budget_id v = bid') (map ?g (budget_versions db)) =
          map ?g (filter (\<lambda>v. budget_id v = bid') (budget_versions db))"
    by (rule filter_budget_map) (simp add: assms)
  then show ?thesis
    by (simp add: versions_of_def update_versions_def sort_key_map [of version_number ?g, OF key])
qed

lemma versions_of_delete_versions:
  "versions_of (delete_versions db bid) bid' = (if bid' = bid then [] else versions_of db bid')"
  by (simp add: versions_of_def delete_versions_def filter_budget_other filter_budget_same
      del: filter_filter)

lemma versions_of_saveBudget:
  "versions_of (saveBudget db bid b) bid' =
     (if bid' = bid \<and> bid \<in> dom (budgets db) then [] else versions_of db bid')"
proof -
  have "versions_of (saveBudget db bid b) bid' =
          (if bid \<in> dom (budgets db) then versions_of (delete_versions db bid) bid'
           else versions_of db bid')"
    by (simp add: versions_of_def saveBudget_def delete_versions_def)
  then show ?thesis
    by (simp add: versions_of_delete_versions)
qed


lemma set_versions_of:
  "v \<in> set (versions_of db bid) \<Longrightarrow> budget_id v = bid \<and> v \<in> set (budget_versions db)"
  by (simp add: versions_of_def)

lemma numbers_le:
  assumes "map version_number vs = [1..<Suc n]" and "v \<in> set vs"
  shows "1 \<le> version_number v \<and> version_number v \<le> n"
proof -
  have "version_number v \<in> set (map version_number vs)"
    using assms(2) by simp
  then show ?thesis
    unfolding assms(1) by auto
qed

lemma version_inv_le:
  "version_inv db bid \<Longrightarrow> v \<in> set (versions_of db bid) \<Longrightarrow>
     version_number v \<le> length (versions_of db bid)"
  unfolding version_inv_def by (rule numbers_le [THEN conjunct2])

lemma numbers_snoc:
  assumes "map version_number (ys @ [y]) = [1..<Suc (length (ys @ [y]))]"
  shows "map version_number ys = [1..<Suc (length ys)] \<and> version_number y = Suc (length ys)"
  using assms by (simp add: upt_Suc_append del: upt_Suc)

lemma version_inv_last:
  assumes "version_inv db bid" and "versions_of db bid \<noteq> []"
  shows "version_number (last (versions_of db bid)) = length (versions_of db bid)"
proof -
  obtain ys y where eq: "versions_of db bid = ys @ [y]"
    using assms(2) by (cases "versions_of db bid" rule: rev_cases) simp_all
  have "map version_number (ys @ [y]) = [1..<Suc (length (ys @ [y]))]"
    using assms(1) by (simp only: version_inv_def eq)
  then have "version_number y = Suc (length ys)"
    by (rule numbers_snoc [THEN conjunct2])
  then show ?thesis
    by (simp only: eq last_snoc length_append_singleton)
qed

lemma update_last_only:
  assumes inv: "map version_number vs = [1..<Suc (length vs)]"
    and ne: "vs \<noteq> []"
    and own: "\<forall>v\<in>set vs. budget_id v = bid"
  shows "map (\<lambda>v. if budget_id v = bid \<and> version_number v = version_number (last vs)
                   then f v else v) vs = butlast vs @ [f (last vs)]"
proof -
  obtain ys y where eq: "vs = ys @ [y]"
    using ne by (cases vs rule: rev_cases) simp_all
  have both: "map version_number (ys @ [y]) = [1..<Suc (length (ys @ [y]))]"
    using inv by (simp only: eq)
  have n: "map version_number ys = [1..<Suc (length ys)]"
    using both by (rule numbers_snoc [THEN conjunct1])
  have y: "version_number y = Suc (length ys)"
    using both by (rule numbers_snoc [THEN conjunct2])
  have "\<forall>v\<in>set ys. version_number v \<noteq> version_number y"
  proof
    fix v
    assume "v \<in> set ys"
    then have "version_number v \<le> length ys"
      by (rule numbers_le [OF n, THEN conjunct2])
    then show "version_number v \<noteq> version_number y"
      by (simp add: y)
  qed
  then have "map (\<lambda>v. if budget_id v = bid \<and> version_number v = version_number y
                       then f v else v) ys = ys"
    by (induction ys) simp_all
  then show ?thesis
    using own by (simp add: eq)
qed

lemma versions_of_update_last:
  assumes "version_inv db bid" and "versions_of db bid \<noteq> []"
    and "\<And>v. version_number (f v) = version_number v"
    and "\<And>v. budget_id (f v) = budget_id v"
  shows "versions_of (update_versions db bid (version_number (last (versions_of db bid))) f) bid =
           butlast (versions_of db bid) @ [f (last (versions_of db bid))]"
proof -
  have own: "\<forall>v\<in>set (versions_of db bid). budget_id v = bid"
    by (simp add: set_versions_of)
  show ?thesis
    unfolding versions_of_update_versions [of f, OF assms(3) assms(4)]
    using assms(1) unfolding version_inv_def
    by (rule update_last_only [OF _ assms(2) own])
qed

lemma versions_of_update_versions_other:
  assumes "bid' \<noteq> bid" and "\<And>v. budget_id (f v) = budget_id v"
  shows "versions_of (update_versions db bid n f) bid' = versions_of db bid'"
proof -
  let ?g = "\<lambda>v. if budget_id v = bid \<and> version_number v = n then f v else v"
  let ?rows = "budget_versions db"
  have "filter (\<lambda>v. budget_id v = bid') (map ?g ?rows) =
          map ?g (filter (\<lambda>v. budget_id v = bid') ?rows)"
    by (rule filter_budget_map) (simp add: assms(2))
  also have "\<dots> = filter (\<lambda>v. budget_id v = bid') ?rows"
    by (rule map_idI) (simp add: assms(1))
  finally show ?thesis
    by (simp add: versions_of_def update_versions_def)
qed

lemma versions_of_addVersion_next:
  assumes "version_inv db bid" and "n = Suc (length (versions_of db bid))"
  shows "versions_of (addVersion db now bid n st nt p) bid =
           versions_of db bid @
             [\<lparr> budget_id = bid, version_number = n,
                created_at = now, state = st, v_note = nt, is_pinned = p \<rparr>]"
proof (rule versions_of_addVersion, rule ballI)
  fix v
  assume "v \<in> set (versions_of db bid)"
  then have "version_number v \<le> length (versions_of db bid)"
    by (rule version_inv_le [OF assms(1)])
  then show "version_number v \<le> n"
    by (simp add: assms(2))
qed

subsection \<open>Restore\<close>

lemma loadBudget_Some:
  "loadBudget db bid = Some (budget, versions) \<Longrightarrow>
     budgets db bid = Some budget \<and> versions = versions_of db bid"
  by (auto simp add: loadBudget_def split: option.splits)

text \<open>
  Claim C4. Restoring an existing version number \<open>V\<close> of a budget inserts one row
  into \<open>budget_versions\<close> and changes no other row: the new version has the state
  of the version numbered \<open>V\<close>, the note "Restored to version V", the pinned flag
  set and the previous version count plus one as its number. With the version numbers
  in order it is the last version of the budget afterwards.
\<close>

theorem C4_restore_appends:
  assumes "loadBudget db bid = Some (budget, versions)"
    and "find (\<lambda>v. version_number v = V) versions = Some targetVersion"
  shows "restoreVersion db now bid V =
           (Restored (length versions + 1),
            \<lparr> budgets = (budgets db)(bid \<mapsto> budget \<lparr> current_state := state targetVersion \<rparr>),
              budget_versions =
                budget_versions db @
                  [\<lparr> budget_id = bid, version_number = length versions + 1, created_at = now,
                     state = state targetVersion,
                     v_note = ''Restored to version '' @ show_nat V, is_pinned = True \<rparr>] \<rparr>) \<and>
         version_number targetVersion = V \<and> targetVersion \<in> set versions \<and>
         (version_inv db bid \<longrightarrow>
            versions_of (snd (restoreVersion db now bid V)) bid =
              versions @
                [\<lparr> budget_id = bid, version_number = length versions + 1, created_at = now,
                   state = state targetVersion,
                   v_note = ''Restored to version '' @ show_nat V, is_pinned = True \<rparr>])"
proof (intro conjI impI)
  show r: "restoreVersion db now bid V =
           (Restored (length versions + 1),
            \<lparr> budgets = (budgets db)(bid \<mapsto> budget \<lparr> current_state := state targetVersion \<rparr>),
              budget_versions =
                budget_versions db @
                  [\<lparr> budget_id = bid, version_number = length versions + 1, created_at = now,
                     state = state targetVersion,
                     v_note = ''Restored to version '' @ show_nat V, is_pinned = True \<rparr>] \<rparr>)"
    using assms by (simp add: restoreVersion_def Let_def addVersion_def)
  show "version_number targetVersion = V"
    using assms(2) by (auto simp add: find_Some_iff)
  show "targetVersion \<in> set versions"
    using assms(2) by (auto simp add: find_Some_iff)
  assume inv: "version_inv db bid"
  have v: "versions = versions_of db bid"
    using assms(1) by (simp add: loadBudget_Some)
  have "snd (restoreVersion db now bid V) =
          (addVersion db now bid (length (versions_of db bid) + 1) (state targetVersion)
             (''Restored to version '' @ show_nat V) True)
          \<lparr> budgets := (budgets db)(bid \<mapsto> budget \<lparr> current_state := state targetVersion \<rparr>) \<rparr>"
    unfolding r by (simp add: addVersion_def v)
  then show "versions_of (snd (restoreVersion db now bid V)) bid =
              versions @
                [\<lparr> budget_id = bid, version_number = length versions + 1, created_at = now,
                   state = state targetVersion,
                   v_note = ''Restored to version '' @ show_nat V, is_pinned = True \<rparr>]"
    by (simp add: versions_of_addVersion_next [OF inv] v)
qed

lemma versions_of_store2: "versions_of store2 ''b1'' = [version1, version2]"
proof -
  have rows: "budget_versions store2 = [version1, version2]"
    by (simp add: store2_def)
  have own: "filter (\<lambda>v. budget_id v = ''b1'') [version1, version2] = [version1, version2]"
    by (simp add: version1_def version2_def)
  have sorted: "sort_key version_number [version1, version2] = [version1, version2]"
    by (simp add: version1_def version2_def)
  show ?thesis
    unfolding versions_of_def rows own sorted ..
qed

lemma version_inv_store2: "version_inv store2 ''b1''"
  by (simp add: version_inv_def versions_of_store2 version1_def version2_def)

lemma loadBudget_store2:
  "loadBudget store2 ''b1'' = Some (budget1 \<lparr> current_state := state1 \<rparr>, [version1, version2])"
proof -
  have "budgets store2 ''b1'' = Some (budget1 \<lparr> current_state := state1 \<rparr>)"
    by (simp add: store2_def)
  then show ?thesis
    unfolding loadBudget_def versions_of_store2 by simp
qed

theorem C4_restore_appends_witness:
  "fst (restoreVersion store2 5000 ''b1'' 1) = Restored 3 \<and>
   versions_of (snd (restoreVersion store2 5000 ''b1'' 1)) ''b1'' =
     [version1, version2,
      \<lparr> budget_id = ''b1'', version_number = 3, created_at = 5000, state = state0,
        v_note = ''Restored to version 1'', is_pinned = True \<rparr>]"
proof -
  have f: "find (\<lambda>v. version_number v = 1) [version1, version2] = Some version1"
    by (simp add: version1_def)
  have n: "show_nat (Suc 0) = ''1''"
    by (simp add: show_nat.simps digit_char_def)
  have s: "state version1 = state0"
    by (simp add: version1_def)
  note c = C4_restore_appends [OF loadBudget_store2 f, of 5000]
  have r: "fst (restoreVersion store2 5000 ''b1'' 1) = Restored 3"
    using c [THEN conjunct1] by simp
  have v: "versions_of (snd (restoreVersion store2 5000 ''b1'' 1)) ''b1'' =
     [version1, version2,
      \<lparr> budget_id = ''b1'', version_number = 3, created_at = 5000, state = state0,
        v_note = ''Restored to version 1'', is_pinned = True \<rparr>]"
    using c [THEN conjunct2, THEN conjunct2, THEN conjunct2, rule_format, OF version_inv_store2]
    by (simp add: n s)
  show ?thesis
    using r v by (rule conjI)
qed

subsection \<open>Update with an unchanged state\<close>

text \<open>
  Claim C3. When the normalised state of the request equals that of the latest
  version, the update creates no version. Unless pinning is requested and the latest
  version is not pinned, the store is left as it is. Otherwise the \<open>budgets\<close> table,
  the version count, the version numbers and the versions of other budgets are left
  as they are, and of the latest version only the pinned flag is set and the note
  replaced by the note of the request, when it has one.
\<close>

theorem C3_unchanged_state_is_no_op:
  assumes "loadBudget db bid = Some (budget, versions)"
    and "versions \<noteq> []"
    and "normalizeState (state (last versions)) = normalizeState (req_state data)"
  shows "(\<not> (req_pin data \<and> \<not> is_pinned (last versions)) \<longrightarrow>
            updateBudget accepts db now bid data = (NoChanges (length versions), db)) \<and>
         (req_pin data \<and> \<not> is_pinned (last versions) \<longrightarrow>
            fst (updateBudget accepts db now bid data) = VersionPinned (length versions) \<and>
            budgets (snd (updateBudget accepts db now bid data)) = budgets db \<and>
            length (versions_of (snd (updateBudget accepts db now bid data)) bid) =
              length versions \<and>
            map version_number (versions_of (snd (updateBudget accepts db now bid data)) bid) =
              map version_number versions \<and>
            (\<forall>bid'. bid' \<noteq> bid \<longrightarrow>
               versions_of (snd (updateBudget accepts db now bid data)) bid' =
                 versions_of db bid') \<and>
            (version_inv db bid \<longrightarrow>
               versions_of (snd (updateBudget accepts db now bid data)) bid =
                 butlast versions @
                   [(last versions)
                      \<lparr> is_pinned := True,
                        v_note := (if truthy_str (req_note data) then the (req_note data)
                                   else v_note (last versions)) \<rparr>]))"
proof (intro conjI impI allI)
  assume "\<not> (req_pin data \<and> \<not> is_pinned (last versions))"
  then show "updateBudget accepts db now bid data = (NoChanges (length versions), db)"
    using assms by (simp add: updateBudget_def Let_def)
next
  let ?f = "\<lambda>v. v \<lparr> is_pinned := True,
                        v_note := (if truthy_str (req_note data) then the (req_note data)
                                   else v_note (last versions)) \<rparr>"
  let ?db' = "update_versions db bid (version_number (last versions)) ?f"
  assume pin: "req_pin data \<and> \<not> is_pinned (last versions)"
  have v: "versions = versions_of db bid"
    using assms(1) by (simp add: loadBudget_Some)
  have u: "updateBudget accepts db now bid data = (VersionPinned (length versions), ?db')"
    using assms pin by (simp add: updateBudget_def Let_def)
  show "fst (updateBudget accepts db now bid data) = VersionPinned (length versions)"
    by (simp add: u)
  show "budgets (snd (updateBudget accepts db now bid data)) = budgets db"
    by (simp add: u update_versions_def)
  have all: "versions_of ?db' b =
           map (\<lambda>v. if budget_id v = bid \<and> version_number v = version_number (last versions)
                    then ?f v else v) (versions_of db b)" for b
    by (rule versions_of_update_versions) simp_all
  have "length (versions_of ?db' bid) = length (versions_of db bid)"
    by (simp only: all length_map)
  then show "length (versions_of (snd (updateBudget accepts db now bid data)) bid) =
      length versions"
    unfolding u snd_conv by (simp only: v)
  have "map version_number (versions_of ?db' bid) = map version_number (versions_of db bid)"
    unfolding all by (simp add: comp_def)
  then show "map version_number (versions_of (snd (updateBudget accepts db now bid data)) bid) =
          map version_number versions"
    unfolding u snd_conv by (simp only: v)
  show "versions_of (snd (updateBudget accepts db now bid data)) bid' = versions_of db bid'"
    if "bid' \<noteq> bid" for bid'
    unfolding u snd_conv using that by (rule versions_of_update_versions_other) simp
  show "versions_of (snd (updateBudget accepts db now bid data)) bid =
          butlast versions @ [?f (last versions)]"
    if inv: "version_inv db bid"
  proof -
    have "versions_of (update_versions db bid (version_number (last (versions_of db bid))) ?f) bid =
            butlast (versions_of db bid) @ [?f (last (versions_of db bid))]"
      using inv assms(2) [unfolded v] by (rule versions_of_update_last) simp_all
    then show ?thesis
      unfolding u snd_conv by (simp only: v)
  qed
qed

subsection \<open>Update with a changed state\<close>

lemma record_version_consolidate:
  assumes "version_inv db bid" and "versions_of db bid \<noteq> []"
    and "shouldConsolidate now (last (versions_of db bid)) \<and> \<not> req_pin data"
  shows "versions_of (record_version db now bid data (versions_of db bid)) bid =
           butlast (versions_of db bid) @
             [(last (versions_of db bid)) \<lparr> state := req_state data, created_at := now \<rparr>]"
proof -
  have "versions_of (update_versions db bid (version_number (last (versions_of db bid)))
                      (\<lambda>v. v \<lparr> state := req_state data, created_at := now \<rparr>)) bid =
          butlast (versions_of db bid) @
            [(last (versions_of db bid)) \<lparr> state := req_state data, created_at := now \<rparr>]"
    using assms(1,2) by (rule versions_of_update_last) simp_all
  then show ?thesis
    using assms(3) by (simp add: record_version_def Let_def)
qed

lemma record_version_append:
  assumes "version_inv db bid"
    and "\<not> (shouldConsolidate now (last (versions_of db bid)) \<and> \<not> req_pin data)"
  shows "versions_of (record_version db now bid data (versions_of db bid)) bid =
           versions_of db bid @
             [\<lparr> budget_id = bid, version_number = Suc (length (versions_of db bid)),
                created_at = now, state = req_state data, v_note = version_note data,
                is_pinned = req_pin data \<rparr>]"
proof -
  have "versions_of (addVersion db now bid (Suc (length (versions_of db bid))) (req_state data)
                       (version_note data) (req_pin data)) bid =
          versions_of db bid @
             [\<lparr> budget_id = bid, version_number = Suc (length (versions_of db bid)),
                created_at = now, state = req_state data, v_note = version_note data,
                is_pinned = req_pin data \<rparr>]"
    using assms(1) by (rule versions_of_addVersion_next) simp
  moreover have "record_version db now bid data (versions_of db bid) =
          addVersion db now bid (Suc (length (versions_of db bid))) (req_state data)
            (version_note data) (req_pin data)"
    using assms(2)
    by (cases "shouldConsolidate now (last (versions_of db bid))"; cases "req_pin data")
      (simp_all add: record_version_def Let_def)
  ultimately show ?thesis
    by (simp only:)
qed

text \<open>
  The version write of the branch for a changed state, as it stands before the budget
  row is saved. If the latest version is not pinned, less than 15 minutes old and
  pinning is not requested, the latest version is overwritten in place: its state and
  time stamp are replaced, the version numbers and the count stay. In every other
  case version N + 1 is inserted, with the new state, the pinned flag of the request,
  and the note "Auto-save" when pinning is not requested (a note of the request is
  then ignored), else the note of the request, or "Shared/Emailed" when it has none.
  The handler then answers with the version count and the consolidation flag after
  \<open>saveBudget\<close>, or with an error and the store as the version write left it.
\<close>

lemma record_version_write:
  assumes "loadBudget db bid = Some (budget, versions)"
    and "versions \<noteq> []"
    and "version_inv db bid"
    and "normalizeState (state (last versions)) \<noteq> normalizeState (req_state data)"
  shows "(\<not> is_pinned (last versions) \<and> now - created_at (last versions) < 15 * 60 * 1000 \<and>
            \<not> req_pin data \<longrightarrow>
            versions_of (record_version db now bid data versions) bid =
              butlast versions @
                [(last versions) \<lparr> state := req_state data, created_at := now \<rparr>]) \<and>
         (\<not> (\<not> is_pinned (last versions) \<and> now - created_at (last versions) < 15 * 60 * 1000 \<and>
               \<not> req_pin data) \<longrightarrow>
            versions_of (record_version db now bid data versions) bid =
              versions @
                [\<lparr> budget_id = bid, version_number = length versions + 1, created_at = now,
                   state = req_state data,
                   v_note = (if req_pin data
                             then (if truthy_str (req_note data) then the (req_note data)
                                   else ''Shared/Emailed'')
                             else ''Auto-save''),
                   is_pinned = req_pin data \<rparr>]) \<and>
         (fst (updateBudget accepts db now bid data) = ServerError \<longrightarrow>
            snd (updateBudget accepts db now bid data) = record_version db now bid data versions) \<and>
         (fst (updateBudget accepts db now bid data) \<noteq> ServerError \<longrightarrow>
            fst (updateBudget accepts db now bid data) =
              Saved (if \<not> is_pinned (last versions) \<and>
                        now - created_at (last versions) < 15 * 60 * 1000 \<and> \<not> req_pin data
                     then length versions else length versions + 1)
                    (\<not> is_pinned (last versions) \<and>
                     now - created_at (last versions) < 15 * 60 * 1000 \<and> \<not> req_pin data) \<and>
            (\<exists>name. snd (updateBudget accepts db now bid data) =
               saveBudget (record_version db now bid data versions) bid
                 (budget \<lparr> client_name := name, current_state := req_state data \<rparr>)))"
proof -
  have v: "versions = versions_of db bid"
    using assms(1) by (simp add: loadBudget_Some)
  have c: "shouldConsolidate now (last versions) =
             (\<not> is_pinned (last versions) \<and> now - created_at (last versions) < 15 * 60 * 1000)"
    by (simp add: shouldConsolidate_def VERSION_CONSOLIDATION_MS_def Let_def)
  have one: "versions_of (record_version db now bid data versions) bid =
              butlast versions @
                [(last versions) \<lparr> state := req_state data, created_at := now \<rparr>]"
    if "\<not> is_pinned (last versions) \<and> now - created_at (last versions) < 15 * 60 * 1000 \<and>
            \<not> req_pin data"
    using record_version_consolidate [OF assms(3), of now data] assms(2) that
    by (simp add: c v [symmetric])
  have two: "versions_of (record_version db now bid data versions) bid =
              versions @
                [\<lparr> budget_id = bid, version_number = length versions + 1, created_at = now,
                   state = req_state data,
                   v_note = (if req_pin data
                             then (if truthy_str (req_note data) then the (req_note data)
                                   else ''Shared/Emailed'')
                             else ''Auto-save''),
                   is_pinned = req_pin data \<rparr>]"
    if "\<not> (\<not> is_pinned (last versions) \<and> now - created_at (last versions) < 15 * 60 * 1000 \<and>
               \<not> req_pin data)"
    using record_version_append [OF assms(3), of now data] that
    by (simp add: c v [symmetric] version_note_def)
  have three: "snd (updateBudget accepts db now bid data) = record_version db now bid data versions"
    if "fst (updateBudget accepts db now bid data) = ServerError"
    using that assms(1,2,4) by (simp add: updateBudget_def Let_def split: if_splits)
  have four: "fst (updateBudget accepts db now bid data) =
              Saved (if \<not> is_pinned (last versions) \<and>
                        now - created_at (last versions) < 15 * 60 * 1000 \<and> \<not> req_pin data
                     then length versions else length versions + 1)
                    (\<not> is_pinned (last versions) \<and>
                     now - created_at (last versions) < 15 * 60 * 1000 \<and> \<not> req_pin data) \<and>
            (\<exists>name. snd (updateBudget accepts db now bid data) =
               saveBudget (record_version db now bid data versions) bid
                 (budget \<lparr> client_name := name, current_state := req_state data \<rparr>))"
    if ok: "fst (updateBudget accepts db now bid data) \<noteq> ServerError"
  proof -
    define bound where "bound =
      (let clientName = (if truthy_opt (member (req_state data) ''clientName'')
                         then the (member (req_state data) ''clientName'')
                         else client_name budget)
       in if truthy clientName then clientName else JNull)"
    have "updateBudget accepts db now bid data =
            (Saved (if \<not> is_pinned (last versions) \<and>
                        now - created_at (last versions) < 15 * 60 * 1000 \<and> \<not> req_pin data
                     then length versions else length versions + 1)
                    (\<not> is_pinned (last versions) \<and>
                     now - created_at (last versions) < 15 * 60 * 1000 \<and> \<not> req_pin data),
             saveBudget (record_version db now bid data versions) bid
               (budget \<lparr> client_name := bound, current_state := req_state data \<rparr>))"
      using ok assms(1,2,4)
      by (simp add: updateBudget_def Let_def c bound_def split: if_splits)
    then show ?thesis
      by auto
  qed
  show ?thesis
    using one two three four by blast
qed

text \<open>
  What \<open>saveBudget\<close> then does to the versions: the budget exists, so the
  \<open>INSERT OR REPLACE\<close> deletes its row and the cascade removes every version of the
  budget, the one just written included. After an update that changed the state and
  was answered with success, the budget has no version left.
\<close>

lemma updateBudget_changed_state_wipes_versions:
  assumes "loadBudget db bid = Some (budget, versions)"
    and "versions \<noteq> []"
    and "normalizeState (state (last versions)) \<noteq> normalizeState (req_state data)"
    and "fst (updateBudget accepts db now bid data) \<noteq> ServerError"
  shows "versions_of (snd (updateBudget accepts db now bid data)) bid = []"
proof -
  have dom: "bid \<in> dom (budgets (record_version db now bid data versions))"
    using assms(1)
    by (auto simp add: record_version_def update_versions_def addVersion_def Let_def
        dest: loadBudget_Some)
  obtain row where "snd (updateBudget accepts db now bid data) =
      saveBudget (record_version db now bid data versions) bid row"
    using assms by (auto simp add: updateBudget_def Let_def split: if_splits)
  then show ?thesis
    using dom by (simp add: versions_of_saveBudget)
qed

text \<open>
  Claim C2. When the normalised state of the request differs from that of the latest
  version, the update handler overwrites the latest version or inserts version N + 1,
  and then calls \<open>saveBudget\<close>, which deletes every version of the budget. So
  whenever such an update is answered with success, the budget is left without any
  version: the latest version has not been overwritten in place and no version N + 1
  exists, although the answer reports N versions and a consolidation, or N + 1
  versions. The versions of the other budgets stay as they were.
\<close>

theorem C2_update_leaves_no_version:
  assumes "loadBudget db bid = Some (budget, versions)"
    and "versions \<noteq> []"
    and "normalizeState (state (last versions)) \<noteq> normalizeState (req_state data)"
    and "fst (updateBudget accepts db now bid data) \<noteq> ServerError"
  shows "versions_of (snd (updateBudget accepts db now bid data)) bid = [] \<and>
         fst (updateBudget accepts db now bid data) =
           Saved (if \<not> is_pinned (last versions) \<and>
                     now - created_at (last versions) < 15 * 60 * 1000 \<and> \<not> req_pin data
                  then length versions else length versions + 1)
                 (\<not> is_pinned (last versions) \<and>
                  now - created_at (last versions) < 15 * 60 * 1000 \<and> \<not> req_pin data) \<and>
         (\<forall>bid'. bid' \<noteq> bid \<longrightarrow>
            versions_of (snd (updateBudget accepts db now bid data)) bid' =
              versions_of db bid')"
proof -
  have gone: "versions_of (snd (updateBudget accepts db now bid data)) bid = []"
    using assms by (rule updateBudget_changed_state_wipes_versions)
  have c: "shouldConsolidate now (last versions) =
             (\<not> is_pinned (last versions) \<and> now - created_at (last versions) < 15 * 60 * 1000)"
    by (simp add: shouldConsolidate_def VERSION_CONSOLIDATION_MS_def Let_def)
  define bound where "bound =
    (let clientName = (if truthy_opt (member (req_state data) ''clientName'')
                       then the (member (req_state data) ''clientName'')
                       else client_name budget)
     in if truthy clientName then clientName else JNull)"
  have u: "updateBudget accepts db now bid data =
          (Saved (if \<not> is_pinned (last versions) \<and>
                      now - created_at (last versions) < 15 * 60 * 1000 \<and> \<not> req_pin data
                   then length versions else length versions + 1)
                  (\<not> is_pinned (last versions) \<and>
                   now - created_at (last versions) < 15 * 60 * 1000 \<and> \<not> req_pin data),
           saveBudget (record_version db now bid data versions) bid
             (budget \<lparr> client_name := bound, current_state := req_state data \<rparr>))"
    using assms by (simp add: updateBudget_def Let_def c bound_def split: if_splits)
  have answer: "fst (updateBudget accepts db now bid data) =
           Saved (if \<not> is_pinned (last versions) \<and>
                     now - created_at (last versions) < 15 * 60 * 1000 \<and> \<not> req_pin data
                  then length versions else length versions + 1)
                 (\<not> is_pinned (last versions) \<and>
                  now - created_at (last versions) < 15 * 60 * 1000 \<and> \<not> req_pin data)"
    by (simp add: u)
  have others: "versions_of (snd (updateBudget accepts db now bid data)) bid' =
          versions_of db bid'" if "bid' \<noteq> bid" for bid'
  proof -
    have "versions_of (record_version db now bid data versions) bid' = versions_of db bid'"
    proof (cases "shouldConsolidate now (last versions) \<and> \<not> req_pin data")
      case True
      have "versions_of (update_versions db bid (version_number (last versions))
              (\<lambda>v. v \<lparr> state := req_state data, created_at := now \<rparr>)) bid' =
            versions_of db bid'"
        using that by (rule versions_of_update_versions_other) simp
      then show ?thesis
        using True by (simp add: record_version_def Let_def)
    next
      case False
      have "record_version db now bid data versions =
              addVersion db now bid (length versions + 1) (req_state data)
                (version_note data) (req_pin data)"
        using False
        by (cases "shouldConsolidate now (last versions)"; cases "req_pin data")
          (simp_all add: record_version_def Let_def)
      then show ?thesis
        using that by (simp add: versions_of_addVersion_other)
    qed
    then show ?thesis
      using that by (simp add: u versions_of_saveBudget)
  qed
  show ?thesis
    using gone answer others by blast
qed

subsection \<open>Preservation of the invariant\<close>

text \<open>The invariant in other words: strictly increasing numbers that start at 1.\<close>

lemma version_inv_strictly_increasing:
  assumes "version_inv db bid"
  shows "sorted_wrt (<) (map version_number (versions_of db bid)) \<and>
         (versions_of db bid \<noteq> [] \<longrightarrow> version_number (hd (versions_of db bid)) = 1)"
proof -
  have eq: "map version_number (versions_of db bid) = [1..<Suc (length (versions_of db bid))]"
    using assms by (simp only: version_inv_def)
  have "sorted_wrt (<) [1..<Suc (length (versions_of db bid))]"
    by (rule sorted_wrt_upt)
  then have inc: "sorted_wrt (<) (map version_number (versions_of db bid))"
    by (simp only: eq)
  have "version_number (hd (versions_of db bid)) = 1" if ne: "versions_of db bid \<noteq> []"
  proof -
    have "version_number (hd (versions_of db bid)) = hd (map version_number (versions_of db bid))"
      using ne by (simp add: hd_map)
    also have "\<dots> = hd [1..<Suc (length (versions_of db bid))]"
      by (simp only: eq)
    also have "\<dots> = 1"
      using ne by (simp add: upt_rec del: upt_Suc)
    finally show ?thesis .
  qed
  with inc show ?thesis
    by simp
qed

lemma version_inv_cong:
  "versions_of db' bid = versions_of db bid \<Longrightarrow> version_inv db' bid = version_inv db bid"
  by (simp add: version_inv_def)

lemma version_inv_empty: "versions_of db bid = [] \<Longrightarrow> version_inv db bid"
  by (simp add: version_inv_def)

lemma version_inv_snoc:
  assumes "version_inv db bid"
    and "versions_of db' bid = versions_of db bid @ [r]"
    and "version_number r = Suc (length (versions_of db bid))"
  shows "version_inv db' bid"
proof -
  have "map version_number (versions_of db bid) = [1..<Suc (length (versions_of db bid))]"
    using assms(1) by (simp only: version_inv_def)
  then have "map version_number (versions_of db bid @ [r]) =
               [1..<Suc (length (versions_of db bid @ [r]))]"
    by (simp add: assms(3))
  then show ?thesis
    by (simp only: version_inv_def assms(2))
qed

lemma version_inv_same_numbers:
  assumes "version_inv db bid"
    and "map version_number (versions_of db' bid) = map version_number (versions_of db bid)"
  shows "version_inv db' bid"
proof -
  have "length (versions_of db' bid) = length (versions_of db bid)"
    using assms(2) by (rule map_eq_imp_length_eq)
  then show ?thesis
    using assms by (simp add: version_inv_def)
qed

lemma foreign_keys_no_versions:
  assumes "foreign_keys_ok db" and "budgets db bid = None"
  shows "versions_of db bid = []"
proof -
  have "\<forall>v\<in>set (budget_versions db). budget_id v \<noteq> bid"
    using assms by (auto simp add: foreign_keys_ok_def list_all_iff)
  then show ?thesis
    by (simp add: versions_of_def filter_empty_conv)
qed

lemma store_inv_addVersion:
  assumes "store_inv db" and "bid \<in> dom (budgets db)"
    and "n = Suc (length (versions_of db bid))"
  shows "store_inv (addVersion db now bid n st nt p)"
proof -
  have fk: "foreign_keys_ok (addVersion db now bid n st nt p)"
    using assms(1,2) by (simp add: store_inv_def foreign_keys_ok_def addVersion_def)
  have "version_inv (addVersion db now bid n st nt p) b" for b
  proof (cases "b = bid")
    case True
    have inv: "version_inv db bid"
      using assms(1) by (simp add: store_inv_def)
    show ?thesis
      unfolding True
      using inv versions_of_addVersion_next [OF inv assms(3)]
      by (rule version_inv_snoc) (simp add: assms(3))
  next
    case False
    then show ?thesis
      using assms(1) by (simp add: store_inv_def versions_of_addVersion_other version_inv_def)
  qed
  then show ?thesis
    using fk by (simp add: store_inv_def)
qed

lemma store_inv_update_versions:
  assumes "store_inv db"
    and "\<And>v. version_number (f v) = version_number v"
    and "\<And>v. budget_id (f v) = budget_id v"
  shows "store_inv (update_versions db bid n f)"
proof -
  have fk: "foreign_keys_ok (update_versions db bid n f)"
    using assms(1)
    by (auto simp add: store_inv_def foreign_keys_ok_def update_versions_def list_all_iff assms(3))
  have "version_inv (update_versions db bid n f) b" for b
  proof -
    have "map version_number (versions_of (update_versions db bid n f) b) =
            map version_number (versions_of db b)"
      unfolding versions_of_update_versions [of f, OF assms(2) assms(3)]
      by (simp add: comp_def assms(2))
    moreover have "version_inv db b"
      using assms(1) by (simp add: store_inv_def)
    ultimately show ?thesis
      by (rule version_inv_same_numbers [rotated])
  qed
  then show ?thesis
    using fk by (simp add: store_inv_def)
qed

lemma store_inv_delete_versions:
  assumes "store_inv db"
  shows "store_inv (delete_versions db bid)"
proof -
  have fk: "foreign_keys_ok (delete_versions db bid)"
    using assms by (simp add: store_inv_def foreign_keys_ok_def delete_versions_def list_all_iff)
  have "version_inv (delete_versions db bid) b" for b
  proof (cases "b = bid")
    case True
    then show ?thesis
      by (simp add: version_inv_empty versions_of_delete_versions)
  next
    case False
    then have "versions_of (delete_versions db bid) b = versions_of db b"
      by (simp add: versions_of_delete_versions)
    then have "version_inv (delete_versions db bid) b = version_inv db b"
      by (rule version_inv_cong)
    then show ?thesis
      using assms by (simp add: store_inv_def)
  qed
  then show ?thesis
    using fk by (simp add: store_inv_def)
qed

lemma store_inv_budgets:
  assumes "store_inv db"
  shows "store_inv (db \<lparr> budgets := (budgets db)(bid \<mapsto> row) \<rparr>)"
proof -
  have "foreign_keys_ok (db \<lparr> budgets := (budgets db)(bid \<mapsto> row) \<rparr>)"
    using assms by (auto simp add: store_inv_def foreign_keys_ok_def list_all_iff)
  then show ?thesis
    using assms by (simp add: store_inv_def version_inv_def)
qed

lemma saveBudget_eq:
  "saveBudget db bid row =
     (if bid \<in> dom (budgets db) then delete_versions db bid else db)
       \<lparr> budgets := (budgets db)(bid \<mapsto> row) \<rparr>"
  by (simp add: saveBudget_def delete_versions_def)

lemma store_inv_saveBudget:
  assumes "store_inv db"
  shows "store_inv (saveBudget db bid row)"
proof (cases "bid \<in> dom (budgets db)")
  case True
  have "store_inv ((delete_versions db bid) \<lparr> budgets :=
          (budgets (delete_versions db bid))(bid \<mapsto> row) \<rparr>)"
    using assms by (intro store_inv_budgets store_inv_delete_versions)
  then show ?thesis
    using True by (simp add: saveBudget_eq delete_versions_def)
next
  case False
  have "store_inv (db \<lparr> budgets := (budgets db)(bid \<mapsto> row) \<rparr>)"
    using assms by (rule store_inv_budgets)
  then show ?thesis
    using False by (simp add: saveBudget_eq)
qed

lemma versions_of_saveBudget_new:
  assumes "store_inv db"
  shows "versions_of (saveBudget db bid row) bid = []"
proof (cases "bid \<in> dom (budgets db)")
  case True
  then show ?thesis by (simp add: versions_of_saveBudget)
next
  case False
  then have "budgets db bid = None" by auto
  with assms have "versions_of db bid = []"
    by (simp add: store_inv_def foreign_keys_no_versions)
  then show ?thesis
    using False by (simp add: versions_of_saveBudget)
qed

lemma store_inv_record_version:
  assumes "store_inv db" and "bid \<in> dom (budgets db)"
  shows "store_inv (record_version db now bid data (versions_of db bid))"
proof (cases "shouldConsolidate now (last (versions_of db bid)) \<and> \<not> req_pin data")
  case True
  have "store_inv (update_versions db bid (version_number (last (versions_of db bid)))
          (\<lambda>v. v \<lparr> state := req_state data, created_at := now \<rparr>))"
    using assms(1) by (rule store_inv_update_versions) simp_all
  then show ?thesis
    using True by (simp add: record_version_def Let_def)
next
  case False
  have "store_inv (addVersion db now bid (Suc (length (versions_of db bid))) (req_state data)
          (version_note data) (req_pin data))"
    using assms by (rule store_inv_addVersion) simp
  moreover have "record_version db now bid data (versions_of db bid) =
          addVersion db now bid (Suc (length (versions_of db bid))) (req_state data)
            (version_note data) (req_pin data)"
    using False
    by (cases "shouldConsolidate now (last (versions_of db bid))"; cases "req_pin data")
      (simp_all add: record_version_def Let_def)
  ultimately show ?thesis
    by (simp only:)
qed

lemma store_inv_updateBudget:
  assumes "store_inv db"
  shows "store_inv (snd (updateBudget accepts db now bid data))"
proof (cases "loadBudget db bid")
  case None
  then show ?thesis
    using assms by (simp add: updateBudget_def)
next
  case (Some a)
  obtain budget versions where a: "a = (budget, versions)"
    by (cases a)
  have l: "budgets db bid = Some budget" and v: "versions = versions_of db bid"
    using Some loadBudget_Some [of db bid budget versions] by (simp_all add: a)
  have d: "bid \<in> dom (budgets db)"
    using l by auto
  have pinned: "store_inv (update_versions db bid (version_number (last versions))
          (\<lambda>v. v \<lparr> is_pinned := True,
                   v_note := (if truthy_str (req_note data) then the (req_note data)
                              else v_note (last versions)) \<rparr>))"
    using assms by (rule store_inv_update_versions) simp_all
  have written: "store_inv (record_version db now bid data versions)"
    unfolding v using assms d by (rule store_inv_record_version)
  have saved: "store_inv (saveBudget (record_version db now bid data versions) bid row)" for row
    using written by (rule store_inv_saveBudget)
  show ?thesis
    using assms pinned written saved
    by (simp add: updateBudget_def Some a Let_def)
qed

lemma store_inv_restoreVersion:
  assumes "store_inv db"
  shows "store_inv (snd (restoreVersion db now bid V))"
proof (cases "loadBudget db bid")
  case None
  then show ?thesis
    using assms by (simp add: restoreVersion_def)
next
  case (Some a)
  obtain budget versions where a: "a = (budget, versions)"
    by (cases a)
  have l: "budgets db bid = Some budget" and v: "versions = versions_of db bid"
    using Some loadBudget_Some [of db bid budget versions] by (simp_all add: a)
  have d: "bid \<in> dom (budgets db)"
    using l by auto
  have added: "store_inv (addVersion db now bid (Suc (length versions)) st nt True)" for st nt
    using assms d by (rule store_inv_addVersion) (simp add: v)
  have "store_inv ((addVersion db now bid (Suc (length versions)) st nt True)
          \<lparr> budgets := (budgets (addVersion db now bid (Suc (length versions)) st nt True))
               (bid \<mapsto> row) \<rparr>)" for st nt row
    using added by (rule store_inv_budgets)
  then show ?thesis
    using assms
    by (simp add: restoreVersion_def Some a Let_def split: option.split)
qed

lemma customizeBudget_seeds:
  assumes "store_inv db"
  shows "store_inv (snd (customizeBudget accepts db now bid)) \<and>
         (fst (customizeBudget accepts db now bid) = Customized \<longrightarrow>
            (\<exists>st. versions_of (snd (customizeBudget accepts db now bid)) bid =
               [\<lparr> budget_id = bid, version_number = 1, created_at = now, state = st,
                  v_note = ''Customization applied'', is_pinned = True \<rparr>]))"
proof (cases "loadBudget db bid")
  case None
  then show ?thesis
    using assms by (simp add: customizeBudget_def)
next
  case (Some a)
  obtain budget versions where a: "a = (budget, versions)"
    by (cases a)
  let ?db1 = "db \<lparr> budgets := (budgets db)(bid \<mapsto> budget \<lparr> is_customized := True \<rparr>) \<rparr>"
  let ?db2 = "delete_versions ?db1 bid"
  have i1: "store_inv ?db1"
    using assms by (rule store_inv_budgets)
  have i2: "store_inv ?db2"
    using i1 by (rule store_inv_delete_versions)
  have e: "versions_of ?db2 bid = []"
    by (simp add: versions_of_delete_versions)
  have d: "bid \<in> dom (budgets ?db2)"
    by (simp add: delete_versions_def)
  have i3: "store_inv (addVersion ?db2 now bid 1 st ''Customization applied'' True)" for st
    using i2 d by (rule store_inv_addVersion) (simp add: e)
  have s: "versions_of (addVersion ?db2 now bid 1 st ''Customization applied'' True) bid =
             [\<lparr> budget_id = bid, version_number = 1, created_at = now, state = st,
                v_note = ''Customization applied'', is_pinned = True \<rparr>]" for st
    using versions_of_addVersion [of ?db2 bid 1 now st "''Customization applied''" True]
    by (simp add: e)
  show ?thesis
    using assms i3 s
    by (simp add: customizeBudget_def Some a Let_def)
qed

lemma createBudget_seeds:
  assumes "store_inv db"
  shows "store_inv (snd (createBudget accepts db now bid clientName st)) \<and>
         (fst (createBudget accepts db now bid clientName st) = Created \<longrightarrow>
            versions_of (snd (createBudget accepts db now bid clientName st)) bid =
               [\<lparr> budget_id = bid, version_number = 1, created_at = now, state = st,
                  v_note = ''Initial budget'', is_pinned = True \<rparr>])"
proof -
  have i1: "store_inv (saveBudget db bid row)" for row
    using assms by (rule store_inv_saveBudget)
  have e: "versions_of (saveBudget db bid row) bid = []" for row
    using assms by (rule versions_of_saveBudget_new)
  have d: "bid \<in> dom (budgets (saveBudget db bid row))" for row
    by (simp add: saveBudget_def)
  have i2: "store_inv (addVersion (saveBudget db bid row) now bid 1 st ''Initial budget'' True)"
    for row
    using i1 d by (rule store_inv_addVersion) (simp add: e)
  have s: "versions_of (addVersion (saveBudget db bid row) now bid 1 st ''Initial budget'' True) bid =
             [\<lparr> budget_id = bid, version_number = 1, created_at = now, state = st,
                v_note = ''Initial budget'', is_pinned = True \<rparr>]" for row
    using versions_of_addVersion
            [of "saveBudget db bid row" bid 1 now st "''Initial budget''" True]
    by (simp add: e)
  show ?thesis
    using assms i2 s by (simp add: createBudget_def Let_def)
qed

subsection \<open>The example store\<close>

lemma versions_of_store1: "versions_of store1 ''b1'' = [version1]"
proof -
  have rows: "budget_versions store1 = [version1]"
    by (simp add: store1_def)
  have own: "filter (\<lambda>v. budget_id v = ''b1'') [version1] = [version1]"
    by (simp add: version1_def)
  show ?thesis
    unfolding versions_of_def rows own by simp
qed

lemma loadBudget_store1: "loadBudget store1 ''b1'' = Some (budget1, [version1])"
proof -
  have "budgets store1 ''b1'' = Some budget1"
    by (simp add: store1_def)
  then show ?thesis
    unfolding loadBudget_def versions_of_store1 by simp
qed

lemma version_inv_store1: "version_inv store1 ''b1''"
  by (simp add: version_inv_def versions_of_store1 version1_def)

lemma versions_of_store2_other: "bid \<noteq> ''b1'' \<Longrightarrow> versions_of store2 bid = []"
  by (simp add: versions_of_def store2_def version1_def version2_def)

lemma store_inv_store2: "store_inv store2"
proof -
  have "foreign_keys_ok store2"
    by (simp add: foreign_keys_ok_def store2_def version1_def version2_def)
  moreover have "version_inv store2 bid" for bid
    by (cases "bid = ''b1''")
      (simp_all add: version_inv_store2 version_inv_empty versions_of_store2_other)
  ultimately show ?thesis
    by (simp add: store_inv_def)
qed

lemma versions_of_store3: "versions_of store3 bid = (if bid = ''b3'' then [bare_version] else [])"
  by (simp add: versions_of_def store3_def bare_version_def)

lemma loadBudget_store3:
  "loadBudget store3 ''b3'' =
     Some (\<lparr> client_name = JNull, current_state = bare_state, is_customized = False \<rparr>,
           [bare_version])"
proof -
  have "budgets store3 ''b3'' =
          Some \<lparr> client_name = JNull, current_state = bare_state, is_customized = False \<rparr>"
    by (simp add: store3_def)
  then show ?thesis
    unfolding loadBudget_def versions_of_store3 by simp
qed

lemma store_inv_store3: "store_inv store3"
proof -
  have "foreign_keys_ok store3"
    by (simp add: foreign_keys_ok_def store3_def bare_version_def)
  moreover have "version_inv store3 bid" for bid
    by (simp add: version_inv_def versions_of_store3 bare_version_def)
  ultimately show ?thesis
    by (simp add: store_inv_def)
qed

lemma norm_state0: "normalizeState state0 =
    JObj [(''homeSize'', JNum 4000), (''propertyType'', JStr ''residential''),
          (''selections'', JObj []), (''total'', JNum 0)]"
  by (simp add: normalizeState_def state0_def pick_def)

lemma norm_state1: "normalizeState state1 =
    JObj [(''homeSize'', JNum 4000), (''propertyType'', JStr ''residential''),
          (''selections'', JObj []), (''total'', JNum 5700)]"
  by (simp add: normalizeState_def state1_def pick_def)

lemma norm_state1_resent: "normalizeState state1_resent = normalizeState state1"
  unfolding norm_state1 by (simp add: normalizeState_def state1_resent_def pick_def)

lemma norm_state2: "normalizeState state2 =
    JObj [(''homeSize'', JNum 4000), (''propertyType'', JStr ''residential''),
          (''selections'', JObj []), (''total'', JNum 21000)]"
  by (simp add: normalizeState_def state2_def pick_def)

lemma last_store2: "last [version1, version2] = version2"
  by simp

lemma version2_fields:
  "state version2 = state1" "is_pinned version2 = False" "created_at version2 = 1000"
  "v_note version2 = ''Auto-save''" "version_number version2 = 2" "budget_id version2 = ''b1''"
  by (simp_all add: version2_def)

lemma version1_fields:
  "state version1 = state0" "is_pinned version1 = True" "created_at version1 = 0"
  "version_number version1 = 1" "budget_id version1 = ''b1''"
  by (simp_all add: version1_def)

theorem C3_unchanged_state_is_no_op_witness:
  "updateBudget no_exotic store2 2000 ''b1'' resave_request = (NoChanges 2, store2) \<and>
   fst (updateBudget no_exotic store2 2000 ''b1'' pin_request) = VersionPinned 2 \<and>
   versions_of (snd (updateBudget no_exotic store2 2000 ''b1'' pin_request)) ''b1'' =
     [version1, version2 \<lparr> is_pinned := True, v_note := ''Sent to client'' \<rparr>]"
proof -
  have ne: "[version1, version2] \<noteq> []"
    by simp
  have same: "normalizeState (state (last [version1, version2])) =
                normalizeState (req_state resave_request)"
    by (simp add: version2_fields resave_request_def norm_state1_resent)
  have same': "normalizeState (state (last [version1, version2])) =
                normalizeState (req_state pin_request)"
    by (simp add: version2_fields pin_request_def norm_state1_resent)
  note a = C3_unchanged_state_is_no_op
             [OF loadBudget_store2 ne same, of no_exotic 2000, THEN conjunct1]
  note b = C3_unchanged_state_is_no_op
             [OF loadBudget_store2 ne same', of no_exotic 2000, THEN conjunct2]
  have p: "req_pin pin_request \<and> \<not> is_pinned (last [version1, version2])"
    by (simp add: pin_request_def version2_fields)
  have 1: "updateBudget no_exotic store2 2000 ''b1'' resave_request = (NoChanges 2, store2)"
    using a by (simp add: resave_request_def)
  have 2: "fst (updateBudget no_exotic store2 2000 ''b1'' pin_request) = VersionPinned 2"
    using b [rule_format, OF p] by simp
  have 3: "versions_of (snd (updateBudget no_exotic store2 2000 ''b1'' pin_request)) ''b1'' =
     [version1, version2 \<lparr> is_pinned := True, v_note := ''Sent to client'' \<rparr>]"
    using b [rule_format, OF p] version_inv_store2
    by (simp add: pin_request_def truthy_str_def)
  show ?thesis
    using 1 2 3 by simp
qed

text \<open>The version write on the example store, inside and outside the 15 minutes.\<close>

lemma record_version_write_example:
  "versions_of (record_version store2 61000 ''b1'' autosave_request [version1, version2]) ''b1'' =
     [version1, version2 \<lparr> state := state2, created_at := 61000 \<rparr>] \<and>
   versions_of (record_version store2 2000000 ''b1'' autosave_request [version1, version2]) ''b1'' =
     [version1, version2,
      \<lparr> budget_id = ''b1'', version_number = 3, created_at = 2000000, state = state2,
        v_note = ''Auto-save'', is_pinned = False \<rparr>] \<and>
   fst (updateBudget no_exotic store2 61000 ''b1'' autosave_request) = Saved 2 True"
proof -
  have ne: "[version1, version2] \<noteq> []"
    by simp
  have diff: "normalizeState (state (last [version1, version2])) \<noteq>
                normalizeState (req_state autosave_request)"
    by (simp add: version2_fields autosave_request_def norm_state1 norm_state2)
  note t = record_version_write [OF loadBudget_store2 ne version_inv_store2 diff]
  have 1: "versions_of (record_version store2 61000 ''b1'' autosave_request
             [version1, version2]) ''b1'' =
     [version1, version2 \<lparr> state := state2, created_at := 61000 \<rparr>]"
    using t [of 61000 no_exotic, THEN conjunct1]
    by (simp add: version2_fields autosave_request_def)
  have 2: "versions_of (record_version store2 2000000 ''b1'' autosave_request
             [version1, version2]) ''b1'' =
     [version1, version2,
      \<lparr> budget_id = ''b1'', version_number = 3, created_at = 2000000, state = state2,
        v_note = ''Auto-save'', is_pinned = False \<rparr>]"
    using t [of 2000000 no_exotic, THEN conjunct2, THEN conjunct1]
    by (simp add: version2_fields autosave_request_def)
  have ok: "fst (updateBudget no_exotic store2 61000 ''b1'' autosave_request) \<noteq> ServerError"
    using loadBudget_store2 diff
    by (simp add: updateBudget_def Let_def autosave_request_def state2_def member_def
        truthy_opt_def binds_def budget1_def)
  have 3: "fst (updateBudget no_exotic store2 61000 ''b1'' autosave_request) = Saved 2 True"
    using t [of 61000 no_exotic, THEN conjunct2, THEN conjunct2, THEN conjunct2,
             rule_format, OF ok, THEN conjunct1]
    by (simp add: version2_fields autosave_request_def)
  show ?thesis
    using 1 2 3 by simp
qed

text \<open>
  A note without a pin. The budget has one pinned version; the request changes the
  state and carries a note without asking for a pin. The handler inserts version 2
  with the note "Auto-save", not the note of the request, and answers with a version
  count of 2; the \<open>saveBudget\<close> that follows leaves the budget without any version.
\<close>

lemma updateBudget_note_example:
  "versions_of store1 ''b1'' = [version1] \<and>
   versions_of (record_version store1 60000 ''b1'' noted_request [version1]) ''b1'' =
     [version1,
      \<lparr> budget_id = ''b1'', version_number = 2, created_at = 60000, state = state1,
        v_note = ''Auto-save'', is_pinned = False \<rparr>] \<and>
   fst (updateBudget no_exotic store1 60000 ''b1'' noted_request) = Saved 2 False \<and>
   versions_of (snd (updateBudget no_exotic store1 60000 ''b1'' noted_request)) ''b1'' = []"
proof -
  have diff: "normalizeState (state (last [version1])) \<noteq>
                normalizeState (req_state noted_request)"
    by (simp add: version1_fields noted_request_def norm_state0 norm_state1)
  have nc: "\<not> (shouldConsolidate 60000 (last (versions_of store1 ''b1'')) \<and>
               \<not> req_pin noted_request)"
    by (simp add: versions_of_store1 shouldConsolidate_def version1_fields)
  have 1: "versions_of (record_version store1 60000 ''b1'' noted_request [version1]) ''b1'' =
     [version1,
      \<lparr> budget_id = ''b1'', version_number = 2, created_at = 60000, state = state1,
        v_note = ''Auto-save'', is_pinned = False \<rparr>]"
    using record_version_append [OF version_inv_store1 nc]
    by (simp add: versions_of_store1 noted_request_def version_note_def)
  have 2: "fst (updateBudget no_exotic store1 60000 ''b1'' noted_request) = Saved 2 False"
    using loadBudget_store1 diff
    by (simp add: updateBudget_def Let_def noted_request_def state1_def member_def
        truthy_opt_def binds_def budget1_def shouldConsolidate_def version1_fields)
  have ok: "fst (updateBudget no_exotic store1 60000 ''b1'' noted_request) \<noteq> ServerError"
    by (simp add: 2)
  have ne: "[version1] \<noteq> []"
    by simp
  have 3: "versions_of (snd (updateBudget no_exotic store1 60000 ''b1'' noted_request)) ''b1'' = []"
    using loadBudget_store1 ne diff ok by (rule updateBudget_changed_state_wipes_versions)
  show ?thesis
    using versions_of_store1 1 2 3 by simp
qed

text \<open>
  The budget of the example store has the versions 1 and 2, the second not pinned. An
  update with a changed state one minute after version 2 is answered with two
  versions and a consolidation, one after more than 15 minutes with three versions;
  either leaves the budget without any version.
\<close>

theorem C2_update_leaves_no_version_witness:
  "versions_of store2 ''b1'' = [version1, version2] \<and>
   fst (updateBudget no_exotic store2 61000 ''b1'' autosave_request) = Saved 2 True \<and>
   versions_of (snd (updateBudget no_exotic store2 61000 ''b1'' autosave_request)) ''b1'' = [] \<and>
   fst (updateBudget no_exotic store2 2000000 ''b1'' autosave_request) = Saved 3 False \<and>
   versions_of (snd (updateBudget no_exotic store2 2000000 ''b1'' autosave_request)) ''b1'' = []"
proof -
  have ne: "[version1, version2] \<noteq> []"
    by simp
  have diff: "normalizeState (state (last [version1, version2])) \<noteq>
                normalizeState (req_state autosave_request)"
    by (simp add: version2_fields autosave_request_def norm_state1 norm_state2)
  have ok: "fst (updateBudget no_exotic store2 now ''b1'' autosave_request) \<noteq> ServerError"
    for now
    using loadBudget_store2 diff
    by (simp add: updateBudget_def Let_def autosave_request_def state2_def member_def
        truthy_opt_def binds_def budget1_def)
  note t = C2_update_leaves_no_version [OF loadBudget_store2 ne diff ok]
  have 1: "fst (updateBudget no_exotic store2 61000 ''b1'' autosave_request) = Saved 2 True"
    using t [of 61000, THEN conjunct2, THEN conjunct1]
    by (simp add: version2_fields autosave_request_def)
  have 2: "fst (updateBudget no_exotic store2 2000000 ''b1'' autosave_request) = Saved 3 False"
    using t [of 2000000, THEN conjunct2, THEN conjunct1]
    by (simp add: version2_fields autosave_request_def)
  show ?thesis
    by (intro conjI versions_of_store2 1 2 t [THEN conjunct1])
qed

text \<open>
  The comparison that selects the branch prints, at every depth, only the properties
  whose names are keys of the top level. A change confined to nested properties, here
  the tier selected for a category, is not seen: the handler answers that nothing has
  changed and writes nothing.
\<close>

lemma updateBudget_nested_change_undetected:
  "state1_retiered \<noteq> state1 \<and>
   normalizeState state1_retiered = normalizeState state1 \<and>
   updateBudget no_exotic store2 2000 ''b1'' retier_request = (NoChanges 2, store2)"
proof -
  have d: "state1_retiered \<noteq> state1"
    by (simp add: state1_retiered_def state1_def)
  have n: "normalizeState state1_retiered = normalizeState state1"
    by (simp add: norm_state1) (simp add: normalizeState_def state1_retiered_def pick_def)
  have "updateBudget no_exotic store2 2000 ''b1'' retier_request = (NoChanges 2, store2)"
    using loadBudget_store2 n
    by (simp add: updateBudget_def Let_def version2_fields retier_request_def)
  with d n show ?thesis
    by simp
qed

subsection \<open>The version numbers under all operations\<close>

lemma set_versions_of_eq:
  "set (versions_of db bid) = {v \<in> set (budget_versions db). budget_id v = bid}"
  by (auto simp add: versions_of_def)

lemma numbers_addVersion:
  "version_number ` set (versions_of (addVersion db now bid n st nt p) bid)
     \<subseteq> version_number ` set (versions_of db bid) \<union> {n}"
proof
  fix x
  assume "x \<in> version_number ` set (versions_of (addVersion db now bid n st nt p) bid)"
  then obtain v where v: "v \<in> set (budget_versions (addVersion db now bid n st nt p))"
    and b: "budget_id v = bid" and x: "x = version_number v"
    by (auto simp add: set_versions_of_eq)
  from v have "v \<in> set (budget_versions db) \<or> version_number v = n"
    by (auto simp add: addVersion_def)
  then show "x \<in> version_number ` set (versions_of db bid) \<union> {n}"
    using b x by (auto simp add: set_versions_of_eq)
qed

lemma numbers_update_versions:
  assumes "\<And>v. version_number (f v) = version_number v"
    and "\<And>v. budget_id (f v) = budget_id v"
  shows "version_number ` set (versions_of (update_versions db bid n f) bid)
           \<subseteq> version_number ` set (versions_of db bid)"
  unfolding versions_of_update_versions [of f, OF assms]
  by (auto simp add: assms(1))

lemma numbers_saveBudget:
  "version_number ` set (versions_of (saveBudget db bid row) bid)
     \<subseteq> version_number ` set (versions_of db bid)"
  by (simp add: versions_of_saveBudget)

lemma numbers_record_version:
  "version_number ` set (versions_of (record_version db now bid data versions) bid)
     \<subseteq> version_number ` set (versions_of db bid) \<union> {length versions + 1}"
proof (cases "shouldConsolidate now (last versions) \<and> \<not> req_pin data")
  case True
  have "version_number ` set (versions_of (update_versions db bid (version_number (last versions))
          (\<lambda>v. v \<lparr> state := req_state data, created_at := now \<rparr>)) bid)
        \<subseteq> version_number ` set (versions_of db bid)"
    by (rule numbers_update_versions) simp_all
  then show ?thesis
    using True by (auto simp add: record_version_def Let_def)
next
  case False
  have "record_version db now bid data versions =
          addVersion db now bid (length versions + 1) (req_state data)
            (version_note data) (req_pin data)"
    using False
    by (cases "shouldConsolidate now (last versions)"; cases "req_pin data")
      (simp_all add: record_version_def Let_def)
  then show ?thesis
    using numbers_addVersion [of db now bid "length versions + 1"] by (simp only:)
qed

lemma numbers_updateBudget:
  "version_number ` set (versions_of (snd (updateBudget accepts db now bid data)) bid)
     \<subseteq> version_number ` set (versions_of db bid) \<union> {length (versions_of db bid) + 1}"
proof (cases "loadBudget db bid")
  case None
  then show ?thesis
    by (auto simp add: updateBudget_def)
next
  case (Some a)
  obtain budget versions where a: "a = (budget, versions)"
    by (cases a)
  have v: "versions = versions_of db bid"
    using Some loadBudget_Some [of db bid budget versions] by (simp add: a)
  let ?N = "version_number ` set (versions_of db bid) \<union> {length (versions_of db bid) + 1}"
  have "version_number ` set (versions_of (update_versions db bid
          (version_number (last versions))
          (\<lambda>v. v \<lparr> is_pinned := True,
                   v_note := (if truthy_str (req_note data) then the (req_note data)
                              else v_note (last versions)) \<rparr>)) bid)
        \<subseteq> version_number ` set (versions_of db bid)"
    by (rule numbers_update_versions) simp_all
  then have pinned: "version_number ` set (versions_of (update_versions db bid
          (version_number (last versions))
          (\<lambda>v. v \<lparr> is_pinned := True,
                   v_note := (if truthy_str (req_note data) then the (req_note data)
                              else v_note (last versions)) \<rparr>)) bid) \<subseteq> ?N"
    by (rule le_supI1)
  have written: "version_number ` set (versions_of (record_version db now bid data versions) bid)
          \<subseteq> ?N"
    using numbers_record_version [of db now bid data versions] by (simp only: v)
  have saved: "version_number ` set (versions_of
          (saveBudget (record_version db now bid data versions) bid row) bid) \<subseteq> ?N" for row
    using numbers_saveBudget [of "record_version db now bid data versions" bid row] written
    by blast
  show ?thesis
    using pinned written saved
    by (simp add: updateBudget_def Some a Let_def del: Un_insert_right)
qed

lemma numbers_restoreVersion:
  "version_number ` set (versions_of (snd (restoreVersion db now bid V)) bid)
     \<subseteq> version_number ` set (versions_of db bid) \<union> {length (versions_of db bid) + 1}"
proof (cases "loadBudget db bid")
  case None
  then show ?thesis
    by (auto simp add: restoreVersion_def)
next
  case (Some a)
  obtain budget versions where a: "a = (budget, versions)"
    by (cases a)
  have v: "versions = versions_of db bid"
    using Some loadBudget_Some [of db bid budget versions] by (simp add: a)
  have "version_number ` set (versions_of
           ((addVersion db now bid (length versions + 1) st nt True) \<lparr> budgets := b \<rparr>) bid)
          \<subseteq> version_number ` set (versions_of db bid) \<union> {length (versions_of db bid) + 1}"
    for st nt b
    using numbers_addVersion [of db now bid "length versions + 1" st nt True]
    by (simp add: v)
  then show ?thesis
    by (simp add: restoreVersion_def Some a Let_def split: option.split del: Un_insert_right)
qed

lemma customizeBudget_all_or_nothing:
  "fst (customizeBudget accepts db now bid) \<noteq> Customized \<Longrightarrow>
     snd (customizeBudget accepts db now bid) = db"
proof (cases "loadBudget db bid")
  case None
  then show ?thesis
    by (simp add: customizeBudget_def)
next
  case (Some a)
  assume failed: "fst (customizeBudget accepts db now bid) \<noteq> Customized"
  obtain budget versions where a: "a = (budget, versions)"
    by (cases a)
  show ?thesis
  proof (cases "binds accepts (locked_value budget versions ''homeSize'') \<and>
                binds accepts (locked_value budget versions ''propertyType'')")
    case True
    then have "fst (customizeBudget accepts db now bid) = Customized"
      by (simp add: customizeBudget_def Some a Let_def)
    with failed show ?thesis
      by simp
  next
    case False
    then show ?thesis
      by (auto simp add: customizeBudget_def Some a)
  qed
qed

lemma createBudget_all_or_nothing:
  "fst (createBudget accepts db now bid clientName st) \<noteq> Created \<Longrightarrow>
     snd (createBudget accepts db now bid clientName st) = db"
  by (simp add: createBudget_def Let_def split: if_splits)

text \<open>
  Claim C5. Create, update, restore and customize keep the store in order: of every
  budget the version numbers, in the order of \<open>loadBudget\<close>, are 1, 2, ..., n.
  A created budget has the single version 1, pinned. After update and restore every
  version number of the budget is one it had before or the previous version count
  plus one. A customized budget has a single version, numbered 1 and pinned, in place
  of its whole version list. A create or a customize that fails leaves the store as it
  was.
\<close>

theorem C5_version_numbers_invariant:
  assumes "store_inv db"
  shows "store_inv (snd (createBudget accepts db now bid clientName st)) \<and>
         store_inv (snd (updateBudget accepts db now bid data)) \<and>
         store_inv (snd (restoreVersion db now bid V)) \<and>
         store_inv (snd (customizeBudget accepts db now bid)) \<and>
         (fst (createBudget accepts db now bid clientName st) = Created \<longrightarrow>
            versions_of (snd (createBudget accepts db now bid clientName st)) bid =
              [\<lparr> budget_id = bid, version_number = 1, created_at = now, state = st,
                 v_note = ''Initial budget'', is_pinned = True \<rparr>]) \<and>
         version_number ` set (versions_of (snd (updateBudget accepts db now bid data)) bid)
           \<subseteq> version_number ` set (versions_of db bid) \<union> {length (versions_of db bid) + 1} \<and>
         version_number ` set (versions_of (snd (restoreVersion db now bid V)) bid)
           \<subseteq> version_number ` set (versions_of db bid) \<union> {length (versions_of db bid) + 1} \<and>
         (fst (customizeBudget accepts db now bid) = Customized \<longrightarrow>
            (\<exists>st'. versions_of (snd (customizeBudget accepts db now bid)) bid =
               [\<lparr> budget_id = bid, version_number = 1, created_at = now, state = st',
                  v_note = ''Customization applied'', is_pinned = True \<rparr>])) \<and>
         (fst (createBudget accepts db now bid clientName st) \<noteq> Created \<longrightarrow>
            snd (createBudget accepts db now bid clientName st) = db) \<and>
         (fst (customizeBudget accepts db now bid) \<noteq> Customized \<longrightarrow>
            snd (customizeBudget accepts db now bid) = db)"
proof -
  have ca: "fst (createBudget accepts db now bid clientName st) \<noteq> Created \<longrightarrow>
              snd (createBudget accepts db now bid clientName st) = db"
    by (rule impI) (rule createBudget_all_or_nothing)
  have ka: "fst (customizeBudget accepts db now bid) \<noteq> Customized \<longrightarrow>
              snd (customizeBudget accepts db now bid) = db"
    by (rule impI) (rule customizeBudget_all_or_nothing)
  note c = createBudget_seeds [OF assms, of accepts now bid clientName st]
  note k = customizeBudget_seeds [OF assms, of accepts now bid]
  note u = store_inv_updateBudget [OF assms, of accepts now bid data]
  note r = store_inv_restoreVersion [OF assms, of now bid V]
  note nu = numbers_updateBudget [of accepts db now bid data]
  note nr = numbers_restoreVersion [of db now bid V]
  show ?thesis
    by (intro conjI c [THEN conjunct1] u r k [THEN conjunct1] c [THEN conjunct2] nu nr
        k [THEN conjunct2] ca ka)
qed

theorem C5_version_numbers_invariant_witness:
  "store_inv store2 \<and>
   store_inv (snd (updateBudget no_exotic store2 61000 ''b1'' autosave_request)) \<and>
   store_inv (snd (restoreVersion store2 5000 ''b1'' 1)) \<and>
   fst (createBudget no_exotic store2 7000 ''c9'' None state0) = Created \<and>
   versions_of (snd (createBudget no_exotic store2 7000 ''c9'' None state0)) ''c9'' =
     [\<lparr> budget_id = ''c9'', version_number = 1, created_at = 7000, state = state0,
        v_note = ''Initial budget'', is_pinned = True \<rparr>] \<and>
   fst (customizeBudget no_exotic store2 8000 ''b1'') = Customized \<and>
   length (versions_of (snd (customizeBudget no_exotic store2 8000 ''b1'')) ''b1'') = 1 \<and>
   map version_number (versions_of (snd (customizeBudget no_exotic store2 8000 ''b1'')) ''b1'')
     = [1] \<and>
   locked_value (fst (the (loadBudget store3 ''b3''))) (snd (the (loadBudget store3 ''b3'')))
     ''homeSize'' = None \<and>
   fst (customizeBudget no_exotic store3 9000 ''b3'') = Customized \<and>
   map version_number (versions_of (snd (customizeBudget no_exotic store3 9000 ''b3'')) ''b3'')
     = [1]"
proof -
  note t = C5_version_numbers_invariant [OF store_inv_store2]
  have bare: "locked_value (fst (the (loadBudget store3 ''b3'')))
                (snd (the (loadBudget store3 ''b3''))) ''homeSize'' = None"
    by (simp add: loadBudget_store3 locked_value_def member_def truthy_opt_def bare_state_def
        bare_version_def)
  have customized3: "fst (customizeBudget no_exotic store3 9000 ''b3'') = Customized"
    by (simp add: customizeBudget_def loadBudget_store3 locked_value_def member_def
        truthy_opt_def binds_def bare_state_def bare_version_def Let_def)
  note k3 = C5_version_numbers_invariant
              [OF store_inv_store3, of no_exotic 9000 "''b3''" None state0 autosave_request 1,
               THEN conjunct2, THEN conjunct2, THEN conjunct2, THEN conjunct2, THEN conjunct2,
               THEN conjunct2, THEN conjunct2, THEN conjunct1, rule_format, OF customized3]
  from k3 obtain st3 where
    k3': "versions_of (snd (customizeBudget no_exotic store3 9000 ''b3'')) ''b3'' =
           [\<lparr> budget_id = ''b3'', version_number = 1, created_at = 9000, state = st3,
              v_note = ''Customization applied'', is_pinned = True \<rparr>]" ..
  have m3: "map version_number
             (versions_of (snd (customizeBudget no_exotic store3 9000 ''b3'')) ''b3'') = [1]"
    unfolding k3' by simp
  have created: "fst (createBudget no_exotic store2 7000 ''c9'' None state0) = Created"
    by (simp add: createBudget_def truthy_str_def state0_def member_def truthy_opt_def
        binds_def Let_def)
  have customized: "fst (customizeBudget no_exotic store2 8000 ''b1'') = Customized"
    by (simp add: customizeBudget_def loadBudget_store2 locked_value_def member_def
        truthy_opt_def binds_def budget1_def state1_def Let_def)
  note c = t [of no_exotic 7000 "''c9''" None state0 autosave_request 1,
              THEN conjunct2, THEN conjunct2, THEN conjunct2, THEN conjunct2, THEN conjunct1,
              rule_format, OF created]
  note u = t [of no_exotic 61000 "''b1''" None state0 autosave_request 1,
              THEN conjunct2, THEN conjunct1]
  note r = t [of no_exotic 5000 "''b1''" None state0 autosave_request 1,
              THEN conjunct2, THEN conjunct2, THEN conjunct1]
  note k = t [of no_exotic 8000 "''b1''" None state0 autosave_request 1,
              THEN conjunct2, THEN conjunct2, THEN conjunct2, THEN conjunct2, THEN conjunct2,
              THEN conjunct2, THEN conjunct2, THEN conjunct1, rule_format, OF customized]
  from k obtain st' where
    k': "versions_of (snd (customizeBudget no_exotic store2 8000 ''b1'')) ''b1'' =
           [\<lparr> budget_id = ''b1'', version_number = 1, created_at = 8000, state = st',
              v_note = ''Customization applied'', is_pinned = True \<rparr>]" ..
  have l: "length (versions_of (snd (customizeBudget no_exotic store2 8000 ''b1'')) ''b1'') = 1"
    unfolding k' by simp
  have m: "map version_number
             (versions_of (snd (customizeBudget no_exotic store2 8000 ''b1'')) ''b1'') = [1]"
    unfolding k' by simp
  show ?thesis
    by (intro conjI store_inv_store2 u r created c customized l m bare customized3 m3)
qed

end
